theory Spec2Isabelle
  imports Complex_Main
begin

section \<open>Coin Collector: the simulation core of \<^verbatim>\<open>coin-collecting.py\<close>\<close>

text \<open>
  The embedding covers the entity classes, the collision handlers, \<open>Game.update\<close> with
  \<open>check_collisions\<close>, the high-score file and the constructors. Drawing, the event
  loop and the menu keys are outside it.

  Numbers. Python integers are \<open>int\<close>. Python floats (the speeds after a respawn, the
  coordinates they are added to, the particle sizes and velocities) are exact rationals
  \<open>rat\<close>: the rounding of float arithmetic is not part of the model, the comparisons are.
\<close>

subsection \<open>Constants\<close>

definition SCREEN_WIDTH :: int where "SCREEN_WIDTH = 800"
definition SCREEN_HEIGHT :: int where "SCREEN_HEIGHT = 800"

type_synonym color = "int \<times> int \<times> int"

definition BLACK :: color where "BLACK = (0, 0, 0)"
definition WHITE :: color where "WHITE = (255, 255, 255)"
definition RED :: color where "RED = (255, 0, 0)"
definition GOLD :: color where "GOLD = (255, 215, 0)"
definition GREEN :: color where "GREEN = (0, 255, 0)"
definition BLUE :: color where "BLUE = (0, 0, 255)"
definition PURPLE :: color where "PURPLE = (128, 0, 128)"
definition ORANGE :: color where "ORANGE = (255, 165, 0)"
definition CYAN :: color where "CYAN = (0, 255, 255)"

text \<open>The game states \<open>MENU = 0\<close>, \<open>PLAYING = 1\<close>, \<open>GAME_OVER = 2\<close>, \<open>SETTINGS = 3\<close>.\<close>

datatype mode = MENU | PLAYING | GAME_OVER | SETTINGS

subsection \<open>Python's \<open>int()\<close> on a number\<close>

text \<open>\<open>int(x)\<close> truncates towards zero.\<close>

definition py_trunc :: "rat \<Rightarrow> int" where
  "py_trunc q = (if 0 \<le> q then \<lfloor>q\<rfloor> else \<lceil>q\<rceil>)"

subsection \<open>Player\<close>

record Player =
  player_width :: int
  player_height :: int
  player_x :: int
  player_y :: int
  player_speed :: int
  player_color :: color
  player_shield :: bool
  player_shield_time :: int
  player_speed_boost :: bool
  player_speed_boost_time :: int

text \<open>\<open>Player.__init__\<close>, with \<open>reset_position\<close> run after width and height are set.\<close>

definition Player_init :: Player where
  "Player_init =
     \<lparr>player_width = 50, player_height = 50,
      player_x = SCREEN_WIDTH div 2 - 50 div 2,
      player_y = SCREEN_HEIGHT - 50 - 10,
      player_speed = 10, player_color = BLUE,
      player_shield = False, player_shield_time = 0,
      player_speed_boost = False, player_speed_boost_time = 0\<rparr>"

text \<open>
  The part of \<open>pygame.key.get_pressed()\<close> that \<open>Player.update\<close> reads, and the value
  \<open>current_time\<close> of \<open>pygame.time.get_ticks()\<close> (milliseconds) as an argument.
\<close>

record keys =
  K_LEFT :: bool
  K_RIGHT :: bool

definition Player_update :: "keys \<Rightarrow> int \<Rightarrow> Player \<Rightarrow> Player" where
  "Player_update ks current_time p =
     (let speed_multiplier = (if player_speed_boost p then 3 / 2 else 1 :: rat);
          p1 = (if K_LEFT ks \<and> player_x p > 0
                then p\<lparr>player_x := player_x p - py_trunc (of_int (player_speed p) * speed_multiplier)\<rparr>
                else p);
          p2 = (if K_RIGHT ks \<and> player_x p1 < SCREEN_WIDTH - player_width p1
                then p1\<lparr>player_x := player_x p1 + py_trunc (of_int (player_speed p1) * speed_multiplier)\<rparr>
                else p1);
          p3 = (if player_shield p2 \<and> current_time - player_shield_time p2 > 5000
                then p2\<lparr>player_shield := False\<rparr> else p2);
          p4 = (if player_speed_boost p3 \<and> current_time - player_speed_boost_time p3 > 5000
                then p3\<lparr>player_speed_boost := False\<rparr> else p3)
      in p4)"

text \<open>A run of polled updates, one per frame, each with its keys and its clock reading.\<close>

fun Player_updates :: "(keys \<times> int) list \<Rightarrow> Player \<Rightarrow> Player" where
  "Player_updates [] p = p"
| "Player_updates ((ks, now) # fs) p = Player_updates fs (Player_update ks now p)"

text \<open>
  A run of frames in which the speed-boost flag seen by each update is whatever the
  power-ups collected so far have left it: the flag is an input of every frame.
\<close>

fun Player_run :: "(keys \<times> int \<times> bool) list \<Rightarrow> Player \<Rightarrow> Player" where
  "Player_run [] p = p"
| "Player_run ((ks, now, boost) # fs) p =
     Player_run fs (Player_update ks now (p\<lparr>player_speed_boost := boost\<rparr>))"

subsection \<open>The \<open>random\<close> module\<close>

text \<open>
  The generator is an explicit state: an infinite sequence of rationals and a position.
  One draw of \<open>random.random()\<close> is the fractional part of the next element, a value
  in \<open>[0, 1)\<close>, so that every sequence is a valid source. \<open>randint\<close>, \<open>uniform\<close> and
  \<open>choice\<close> are derived from one draw each, as in the library.
\<close>

record rng =
  draws :: "nat \<Rightarrow> rat"
  pos :: nat

definition random_random :: "rng \<Rightarrow> rat \<times> rng" where
  "random_random r = (frac (draws r (pos r)), r\<lparr>pos := Suc (pos r)\<rparr>)"

definition random_randint :: "int \<Rightarrow> int \<Rightarrow> rng \<Rightarrow> int \<times> rng" where
  "random_randint a b r =
     (case random_random r of (u, r') \<Rightarrow> (a + \<lfloor>u * of_int (b - a + 1)\<rfloor>, r'))"

definition random_uniform :: "rat \<Rightarrow> rat \<Rightarrow> rng \<Rightarrow> rat \<times> rng" where
  "random_uniform a b r =
     (case random_random r of (u, r') \<Rightarrow> (a + (b - a) * u, r'))"

definition random_choice :: "'a list \<Rightarrow> rng \<Rightarrow> 'a \<times> rng" where
  "random_choice xs r =
     (case random_random r of (u, r') \<Rightarrow> (xs ! nat \<lfloor>u * of_nat (length xs)\<rfloor>, r'))"

subsection \<open>Obstacle\<close>

record Obstacle =
  obstacle_width :: int
  obstacle_height :: int
  obstacle_x :: int
  obstacle_y :: rat
  obstacle_speed :: rat
  obstacle_color :: color

definition Obstacle_reset_position :: "Obstacle \<Rightarrow> rng \<Rightarrow> Obstacle \<times> rng" where
  "Obstacle_reset_position ob r =
     (case random_randint 0 (SCREEN_WIDTH - obstacle_width ob) r of
        (x, r') \<Rightarrow> (ob\<lparr>obstacle_x := x, obstacle_y := - of_int (obstacle_height ob)\<rparr>, r'))"

text \<open>\<open>Obstacle.__init__\<close>: the fields set after \<open>reset_position\<close> are not read by it.\<close>

definition Obstacle_init :: "rng \<Rightarrow> Obstacle \<times> rng" where
  "Obstacle_init r =
     (case random_randint 100 200 r of
        (w, r1) \<Rightarrow>
          Obstacle_reset_position
            \<lparr>obstacle_width = w, obstacle_height = 20, obstacle_x = 0, obstacle_y = 0,
             obstacle_speed = 5, obstacle_color = RED\<rparr> r1)"

definition Obstacle_update :: "Obstacle \<Rightarrow> Obstacle" where
  "Obstacle_update ob = ob\<lparr>obstacle_y := obstacle_y ob + obstacle_speed ob\<rparr>"

definition Obstacle_is_off_screen :: "Obstacle \<Rightarrow> bool" where
  "Obstacle_is_off_screen ob = (obstacle_y ob > of_int SCREEN_HEIGHT)"

definition Obstacle_respawn :: "Obstacle \<Rightarrow> rng \<Rightarrow> Obstacle \<times> rng" where
  "Obstacle_respawn ob r =
     (case random_randint 100 200 r of
        (w, r1) \<Rightarrow>
          (case Obstacle_reset_position (ob\<lparr>obstacle_width := w\<rparr>) r1 of
             (ob1, r2) \<Rightarrow> (ob1\<lparr>obstacle_speed := obstacle_speed ob1 + 3 / 10\<rparr>, r2)))"

subsection \<open>Coin\<close>

record Coin =
  coin_radius :: int
  coin_x :: int
  coin_y :: rat
  coin_speed :: rat
  coin_color :: color
  coin_collected :: bool
  coin_animation_frame :: int
  coin_value :: int

definition Coin_reset_position :: "Coin \<Rightarrow> rng \<Rightarrow> Coin \<times> rng" where
  "Coin_reset_position c r =
     (case random_randint (coin_radius c) (SCREEN_WIDTH - coin_radius c) r of
        (x, r') \<Rightarrow> (c\<lparr>coin_x := x, coin_y := - of_int (coin_radius c)\<rparr>, r'))"

definition Coin_init :: "rng \<Rightarrow> Coin \<times> rng" where
  "Coin_init r =
     Coin_reset_position
       \<lparr>coin_radius = 15, coin_x = 0, coin_y = 0, coin_speed = 4, coin_color = GOLD,
        coin_collected = False, coin_animation_frame = 0, coin_value = 1\<rparr> r"

definition Coin_update :: "Coin \<Rightarrow> Coin" where
  "Coin_update c =
     c\<lparr>coin_y := coin_y c + coin_speed c, coin_animation_frame := coin_animation_frame c + 1\<rparr>"

definition Coin_is_off_screen :: "Coin \<Rightarrow> bool" where
  "Coin_is_off_screen c = (coin_y c > of_int SCREEN_HEIGHT)"

definition Coin_respawn :: "Coin \<Rightarrow> rng \<Rightarrow> Coin \<times> rng" where
  "Coin_respawn c r =
     (case Coin_reset_position c r of
        (c1, r1) \<Rightarrow>
          (let c2 = c1\<lparr>coin_speed := coin_speed c1 + 2 / 10, coin_collected := False\<rparr>
           in case random_random r1 of
                (u, r2) \<Rightarrow>
                  (if u < 1 / 10 then c2\<lparr>coin_color := PURPLE, coin_value := 5\<rparr>
                   else c2\<lparr>coin_color := GOLD, coin_value := 1\<rparr>, r2)))"

subsection \<open>PowerUp\<close>

text \<open>The three type tags \<open>"shield"\<close>, \<open>"speed_boost"\<close>, \<open>"extra_life"\<close>.\<close>

datatype powerup_type = shield | speed_boost | extra_life

record PowerUp =
  powerup_width :: int
  powerup_height :: int
  powerup_x :: int
  powerup_y :: int
  powerup_speed :: int
  powerup_type :: powerup_type
  powerup_collected :: bool
  powerup_color :: color

definition PowerUp_reset_position :: "PowerUp \<Rightarrow> rng \<Rightarrow> PowerUp \<times> rng" where
  "PowerUp_reset_position pu r =
     (case random_randint 0 (SCREEN_WIDTH - powerup_width pu) r of
        (x, r') \<Rightarrow> (pu\<lparr>powerup_x := x, powerup_y := - powerup_height pu\<rparr>, r'))"

definition PowerUp_set_color :: "PowerUp \<Rightarrow> PowerUp" where
  "PowerUp_set_color pu =
     pu\<lparr>powerup_color :=
          (case powerup_type pu of shield \<Rightarrow> CYAN | speed_boost \<Rightarrow> ORANGE | extra_life \<Rightarrow> GREEN)\<rparr>"

definition PowerUp_init :: "rng \<Rightarrow> PowerUp \<times> rng" where
  "PowerUp_init r =
     (case PowerUp_reset_position
             \<lparr>powerup_width = 30, powerup_height = 30, powerup_x = 0, powerup_y = 0,
              powerup_speed = 3, powerup_type = shield, powerup_collected = False,
              powerup_color = BLACK\<rparr> r of
        (pu, r1) \<Rightarrow>
          (case random_choice [shield, speed_boost, extra_life] r1 of
             (t, r2) \<Rightarrow> (PowerUp_set_color (pu\<lparr>powerup_type := t, powerup_collected := False\<rparr>), r2)))"

definition PowerUp_update :: "PowerUp \<Rightarrow> PowerUp" where
  "PowerUp_update pu = pu\<lparr>powerup_y := powerup_y pu + powerup_speed pu\<rparr>"

definition PowerUp_is_off_screen :: "PowerUp \<Rightarrow> bool" where
  "PowerUp_is_off_screen pu = (powerup_y pu > SCREEN_HEIGHT)"

subsection \<open>Particle\<close>

record Particle =
  particle_x :: rat
  particle_y :: rat
  particle_color :: color
  particle_size :: rat
  particle_speed_x :: rat
  particle_speed_y :: rat
  particle_lifetime :: int

definition Particle_init :: "rat \<Rightarrow> rat \<Rightarrow> color \<Rightarrow> rng \<Rightarrow> Particle \<times> rng" where
  "Particle_init x y c r =
     (case random_randint 2 5 r of
        (sz, r1) \<Rightarrow>
          (case random_uniform (- 2) 2 r1 of
             (sx, r2) \<Rightarrow>
               (case random_uniform (- 5) (- 1) r2 of
                  (sy, r3) \<Rightarrow>
                    (case random_randint 20 40 r3 of
                       (lt, r4) \<Rightarrow>
                         (\<lparr>particle_x = x, particle_y = y, particle_color = c,
                           particle_size = of_int sz, particle_speed_x = sx,
                           particle_speed_y = sy, particle_lifetime = lt\<rparr>, r4)))))"

definition Particle_update :: "Particle \<Rightarrow> Particle" where
  "Particle_update pt =
     pt\<lparr>particle_x := particle_x pt + particle_speed_x pt,
        particle_y := particle_y pt + particle_speed_y pt,
        particle_lifetime := particle_lifetime pt - 1,
        particle_size := max 0 (particle_size pt - 1 / 10)\<rparr>"

definition Particle_is_dead :: "Particle \<Rightarrow> bool" where
  "Particle_is_dead pt = (particle_lifetime pt \<le> 0)"

subsection \<open>Exceptions\<close>

text \<open>
  A call that can raise returns \<open>Inl\<close> with the exception, and with the state the object
  had when it was raised where the call mutates one; \<open>Inr\<close> is the normal return.
  \<open>UnicodeDecodeError\<close> is a subclass of \<open>ValueError\<close>; \<open>OSError\<close> stands for the errors of
  the operating system other than \<open>FileNotFoundError\<close> (\<open>PermissionError\<close>,
  \<open>IsADirectoryError\<close> and the like).
\<close>

datatype error = FileNotFoundError | ValueError | UnicodeDecodeError | OSError

fun for_each :: "('a \<Rightarrow> 's \<Rightarrow> (error \<times> 's) + 's) \<Rightarrow> 'a list \<Rightarrow> 's \<Rightarrow> (error \<times> 's) + 's" where
  "for_each f [] s = Inr s"
| "for_each f (x # xs) s = (case f x s of Inl e \<Rightarrow> Inl e | Inr s' \<Rightarrow> for_each f xs s')"

text \<open>\<open>list.remove(x)\<close>: the first element equal to \<open>x\<close> goes, \<open>ValueError\<close> if there is none.\<close>

definition list_remove :: "'a \<Rightarrow> 'a list \<Rightarrow> error + 'a list" where
  "list_remove x xs = (if x \<in> set xs then Inr (remove1 x xs) else Inl ValueError)"

subsection \<open>\<open>str()\<close> and \<open>int()\<close> on the persisted integer\<close>

text \<open>
  A Python string is a list of Unicode code points. \<open>ascii\<close> writes one from a literal.
\<close>

definition ascii :: "string \<Rightarrow> nat list" where
  "ascii s = map of_char s"

text \<open>
  The interpreter's Unicode tables for the code points above ASCII, as \<open>int()\<close> consults
  them: which ones are whitespace (\<open>Py_UNICODE_ISSPACE\<close>) and which are decimal digits,
  with their values (\<open>Py_UNICODE_TODECIMAL\<close>). They depend on the Unicode version of the
  interpreter and are a parameter of \<open>int()\<close>; \<open>unicode_14\<close> below holds those of
  Unicode 14.0.0.
\<close>

record unicode_db =
  uni_isspace :: "nat \<Rightarrow> bool"
  uni_decimal :: "nat \<Rightarrow> nat option"

definition unicode_14 :: unicode_db where
  "unicode_14 =
     \<lparr>uni_isspace =
        (\<lambda>c. c \<in> set [133, 160, 5760, 8232, 8233, 8239, 8287, 12288]
              \<or> (8192 \<le> c \<and> c \<le> 8202)),
      uni_decimal =
        (\<lambda>c. case find (\<lambda>z. z \<le> c \<and> c < z + 10)
                    [1632, 1776, 1984, 2406, 2534, 2662, 2790, 2918, 3046, 3174, 3302,
                     3430, 3558, 3664, 3792, 3872, 4160, 4240, 6112, 6160, 6470, 6608,
                     6784, 6800, 6992, 7088, 7232, 7248, 42528, 43216, 43264, 43472,
                     43504, 43600, 44016, 65296, 66720, 68912, 69734, 69872, 69942,
                     70096, 70384, 70736, 70864, 71248, 71360, 71472, 71904, 72016,
                     72784, 73040, 73120, 92768, 92864, 93008, 120782, 120792, 120802,
                     120812, 120822, 123200, 123632, 125264, 130032] of
                None \<Rightarrow> None
              | Some z \<Rightarrow> Some (c - z))\<rparr>"

text \<open>
  The limit on the number of digits of a conversion between \<open>int\<close> and \<open>str\<close>
  (\<open>sys.get_int_max_str_digits()\<close>, 4300 unless the program changes it; this one does not).
\<close>

definition max_str_digits :: nat where
  "max_str_digits = 4300"

text \<open>\<open>str(n)\<close>: the decimal digits, a minus sign first for a negative number.\<close>

definition digit_char :: "nat \<Rightarrow> nat" where
  "digit_char d = 48 + d"

fun digits :: "nat \<Rightarrow> nat list" where
  "digits n = (if n < 10 then [digit_char n] else digits (n div 10) @ [digit_char (n mod 10)])"

declare digits.simps [simp del]

definition py_str :: "int \<Rightarrow> error + nat list" where
  "py_str n =
     (if max_str_digits < length (digits (nat \<bar>n\<bar>)) then Inl ValueError
      else Inr (if n < 0 then 45 # digits (nat \<bar>n\<bar>) else digits (nat \<bar>n\<bar>)))"

text \<open>
  \<open>int(s)\<close>. A string that is not all ASCII is first rewritten: ASCII stays, other
  whitespace becomes a space, another decimal digit becomes its ASCII digit, and at any
  other code point the string is cut and ends in \<open>?\<close>. Then whitespace (tab to carriage
  return, and space) is skipped at both ends, one sign is read, and the digits follow, with
  single underscores allowed between two digits. Anything else, and more digits than the
  limit, is a \<open>ValueError\<close>.
\<close>

definition is_space :: "nat \<Rightarrow> bool" where
  "is_space c = ((9 \<le> c \<and> c \<le> 13) \<or> c = 32)"

definition is_digit :: "nat \<Rightarrow> bool" where
  "is_digit c = (48 \<le> c \<and> c \<le> 57)"

definition digit_val :: "nat \<Rightarrow> nat" where
  "digit_val c = c - 48"

fun transform :: "unicode_db \<Rightarrow> nat list \<Rightarrow> nat list" where
  "transform db [] = []"
| "transform db (c # cs) =
     (if c < 127 then c # transform db cs
      else if uni_isspace db c then 32 # transform db cs
      else (case uni_decimal db c of
              None \<Rightarrow> [63]
            | Some d \<Rightarrow> (48 + d) # transform db cs))"

definition to_ascii :: "unicode_db \<Rightarrow> nat list \<Rightarrow> nat list" where
  "to_ascii db s = (if \<forall>c \<in> set s. c < 128 then s else transform db s)"

definition strip :: "nat list \<Rightarrow> nat list" where
  "strip s = rev (dropWhile is_space (rev (dropWhile is_space s)))"

definition starts_with_digit :: "nat list \<Rightarrow> bool" where
  "starts_with_digit s = (case s of [] \<Rightarrow> False | c # _ \<Rightarrow> is_digit c)"

fun digits_value :: "nat \<Rightarrow> nat list \<Rightarrow> nat option" where
  "digits_value acc [] = Some acc"
| "digits_value acc (c # cs) =
     (if is_digit c then digits_value (10 * acc + digit_val c) cs
      else if c = 95 \<and> starts_with_digit cs then digits_value acc cs
      else None)"

definition int_unsigned :: "nat list \<Rightarrow> error + int" where
  "int_unsigned s =
     (if starts_with_digit s
      then (case digits_value 0 s of
              None \<Rightarrow> Inl ValueError
            | Some n \<Rightarrow>
                if max_str_digits < length (filter is_digit s) then Inl ValueError
                else Inr (int n))
      else Inl ValueError)"

definition py_int :: "unicode_db \<Rightarrow> nat list \<Rightarrow> error + int" where
  "py_int db s =
     (case strip (to_ascii db s) of
        [] \<Rightarrow> Inl ValueError
      | c # cs \<Rightarrow>
          if c = 45 then (case int_unsigned cs of Inl e \<Rightarrow> Inl e | Inr n \<Rightarrow> Inr (- n))
          else if c = 43 then int_unsigned cs
          else int_unsigned (c # cs))"

text \<open>A character that no integer literal contains.\<close>

definition bad_char :: "nat \<Rightarrow> bool" where
  "bad_char c = (\<not> is_digit c \<and> \<not> is_space c \<and> c \<noteq> 95 \<and> c \<noteq> 43 \<and> c \<noteq> 45)"

subsection \<open>The high-score file\<close>

text \<open>
  The file system as the game sees it. \<open>highscore.txt\<close> does not exist, or holds bytes that
  are not UTF-8, or holds a text, given as the string that \<open>f.read()\<close> returns. \<open>readable\<close>
  and \<open>writable\<close> say whether \<open>open\<close> succeeds on it in mode \<open>"r"\<close> (when it exists) and in
  mode \<open>"w"\<close>. Opening in mode \<open>"w"\<close> empties the file at once.
\<close>

datatype file_content = Missing | Undecodable | Text "nat list"

record filesystem =
  highscore_txt :: file_content
  readable :: bool
  writable :: bool

definition open_read :: "filesystem \<Rightarrow> error + nat list" where
  "open_read fs =
     (case highscore_txt fs of
        Missing \<Rightarrow> Inl FileNotFoundError
      | Undecodable \<Rightarrow> if readable fs then Inl UnicodeDecodeError else Inl OSError
      | Text s \<Rightarrow> if readable fs then Inr s else Inl OSError)"

definition open_write :: "filesystem \<Rightarrow> error + filesystem" where
  "open_write fs = (if writable fs then Inr (fs\<lparr>highscore_txt := Text []\<rparr>) else Inl OSError)"

definition file_write :: "nat list \<Rightarrow> filesystem \<Rightarrow> filesystem" where
  "file_write s fs =
     fs\<lparr>highscore_txt := (case highscore_txt fs of Text t \<Rightarrow> Text (t @ s) | _ \<Rightarrow> Text s)\<rparr>"

text \<open>
  \<open>try: return int(f.read())  except (FileNotFoundError, ValueError): return 0\<close>.
  The clause catches the two classes and the subclasses of \<open>ValueError\<close>.
\<close>

definition caught :: "error \<Rightarrow> bool" where
  "caught e = (e = FileNotFoundError \<or> e = ValueError \<or> e = UnicodeDecodeError)"

definition load_high_score :: "unicode_db \<Rightarrow> filesystem \<Rightarrow> error + int" where
  "load_high_score db fs =
     (case (case open_read fs of Inl e \<Rightarrow> Inl e | Inr s \<Rightarrow> py_int db s) of
        Inr n \<Rightarrow> Inr n
      | Inl e \<Rightarrow> if caught e then Inr 0 else Inl e)"

subsection \<open>Game\<close>

text \<open>
  The fields of the \<open>Game\<close> object, followed by the environment it runs in. The four
  collections are Python lists of object references: a reference is a number, the object
  it denotes is in the store (\<open>obstacle_at\<close>, \<open>coin_at\<close>, \<open>powerup_at\<close>, \<open>particle_at\<close>),
  and a constructor call takes the next unused number. The environment also holds the
  state of the \<open>random\<close> module, the readings that successive calls of
  \<open>pygame.time.get_ticks()\<close> return, and the file system.
\<close>

type_synonym ref = nat

record Game =
  state :: mode
  player :: Player
  obstacles :: "ref list"
  coins :: "ref list"
  power_ups :: "ref list"
  particles :: "ref list"
  score :: int
  high_score :: int
  level :: int
  lives :: int
  dark_mode :: bool
  obstacle_at :: "ref \<Rightarrow> Obstacle"
  coin_at :: "ref \<Rightarrow> Coin"
  powerup_at :: "ref \<Rightarrow> PowerUp"
  particle_at :: "ref \<Rightarrow> Particle"
  next_ref :: ref
  random :: rng
  ticks :: "nat \<Rightarrow> int"
  ticks_pos :: nat
  files :: filesystem

definition get_ticks :: "Game \<Rightarrow> int \<times> Game" where
  "get_ticks g = (ticks g (ticks_pos g), g\<lparr>ticks_pos := Suc (ticks_pos g)\<rparr>)"

subsubsection \<open>Constructor calls and in-place respawns\<close>

definition new_Obstacle :: "Game \<Rightarrow> ref \<times> Game" where
  "new_Obstacle g =
     (case Obstacle_init (random g) of
        (ob, r) \<Rightarrow>
          (next_ref g,
           g\<lparr>obstacle_at := (obstacle_at g)(next_ref g := ob),
             next_ref := Suc (next_ref g), random := r\<rparr>))"

definition new_Coin :: "Game \<Rightarrow> ref \<times> Game" where
  "new_Coin g =
     (case Coin_init (random g) of
        (c, r) \<Rightarrow>
          (next_ref g,
           g\<lparr>coin_at := (coin_at g)(next_ref g := c),
             next_ref := Suc (next_ref g), random := r\<rparr>))"

definition new_PowerUp :: "Game \<Rightarrow> ref \<times> Game" where
  "new_PowerUp g =
     (case PowerUp_init (random g) of
        (pu, r) \<Rightarrow>
          (next_ref g,
           g\<lparr>powerup_at := (powerup_at g)(next_ref g := pu),
             next_ref := Suc (next_ref g), random := r\<rparr>))"

definition new_Particle :: "rat \<Rightarrow> rat \<Rightarrow> color \<Rightarrow> Game \<Rightarrow> ref \<times> Game" where
  "new_Particle x y c g =
     (case Particle_init x y c (random g) of
        (pt, r) \<Rightarrow>
          (next_ref g,
           g\<lparr>particle_at := (particle_at g)(next_ref g := pt),
             next_ref := Suc (next_ref g), random := r\<rparr>))"

text \<open>The comprehensions \<open>[Obstacle() for _ in range(n)]\<close> and \<open>[Coin() for _ in range(n)]\<close>.\<close>

fun new_Obstacles :: "nat \<Rightarrow> Game \<Rightarrow> ref list \<times> Game" where
  "new_Obstacles 0 g = ([], g)"
| "new_Obstacles (Suc n) g =
     (case new_Obstacle g of
        (a, g1) \<Rightarrow> (case new_Obstacles n g1 of (as, g2) \<Rightarrow> (a # as, g2)))"

fun new_Coins :: "nat \<Rightarrow> Game \<Rightarrow> ref list \<times> Game" where
  "new_Coins 0 g = ([], g)"
| "new_Coins (Suc n) g =
     (case new_Coin g of
        (a, g1) \<Rightarrow> (case new_Coins n g1 of (as, g2) \<Rightarrow> (a # as, g2)))"

text \<open>\<open>self.particles.append(Particle(x, y, color))\<close>, and the loop that runs it \<open>n\<close> times.\<close>

definition append_particle :: "rat \<Rightarrow> rat \<Rightarrow> color \<Rightarrow> Game \<Rightarrow> Game" where
  "append_particle x y c g =
     (case new_Particle x y c g of (a, g1) \<Rightarrow> g1\<lparr>particles := particles g1 @ [a]\<rparr>)"

fun append_particles :: "nat \<Rightarrow> rat \<Rightarrow> rat \<Rightarrow> color \<Rightarrow> Game \<Rightarrow> Game" where
  "append_particles 0 x y c g = g"
| "append_particles (Suc n) x y c g = append_particles n x y c (append_particle x y c g)"

definition respawn_obstacle :: "ref \<Rightarrow> Game \<Rightarrow> Game" where
  "respawn_obstacle a g =
     (case Obstacle_respawn (obstacle_at g a) (random g) of
        (ob, r) \<Rightarrow> g\<lparr>obstacle_at := (obstacle_at g)(a := ob), random := r\<rparr>)"

definition respawn_coin :: "ref \<Rightarrow> Game \<Rightarrow> Game" where
  "respawn_coin a g =
     (case Coin_respawn (coin_at g a) (random g) of
        (c, r) \<Rightarrow> g\<lparr>coin_at := (coin_at g)(a := c), random := r\<rparr>)"

subsubsection \<open>Methods of \<open>Game\<close>\<close>

text \<open>
  \<open>with open("highscore.txt", "w", encoding="utf-8") as f: f.write(str(self.high_score))\<close>:
  the file is opened, and emptied, before \<open>str\<close> is evaluated.
\<close>

definition save_high_score :: "Game \<Rightarrow> (error \<times> Game) + Game" where
  "save_high_score g =
     (case open_write (files g) of
        Inl e \<Rightarrow> Inl (e, g)
      | Inr fs \<Rightarrow>
          (case py_str (high_score g) of
             Inl e \<Rightarrow> Inl (e, g\<lparr>files := fs\<rparr>)
           | Inr s \<Rightarrow> Inr (g\<lparr>files := file_write s fs\<rparr>)))"

definition reset_game_objects :: "Game \<Rightarrow> Game" where
  "reset_game_objects g =
     (case new_Obstacles (nat (min (3 + level g div 2) 5)) g of
        (obs, g1) \<Rightarrow>
          (case new_Coins (nat (min (2 + level g1 div 3) 5)) (g1\<lparr>obstacles := obs\<rparr>) of
             (cs, g2) \<Rightarrow> g2\<lparr>coins := cs, power_ups := [], particles := []\<rparr>))"

definition spawn_power_up :: "Game \<Rightarrow> Game" where
  "spawn_power_up g =
     (case random_random (random g) of
        (u, r) \<Rightarrow>
          (let g1 = g\<lparr>random := r\<rparr>
           in if u < 5 / 100 \<and> length (power_ups g1) < 2
              then (case new_PowerUp g1 of (a, g2) \<Rightarrow> g2\<lparr>power_ups := power_ups g2 @ [a]\<rparr>)
              else g1))"

definition level_up :: "Game \<Rightarrow> Game" where
  "level_up g = reset_game_objects (g\<lparr>level := level g + 1\<rparr>)"

definition handle_coin_collection :: "ref \<Rightarrow> Game \<Rightarrow> Game" where
  "handle_coin_collection a g =
     (let g1 = g\<lparr>coin_at := (coin_at g)(a := (coin_at g a)\<lparr>coin_collected := True\<rparr>)\<rparr>;
          g2 = g1\<lparr>score := score g1 + coin_value (coin_at g1 a)\<rparr>;
          g3 = append_particles 20 (of_int (coin_x (coin_at g2 a))) (coin_y (coin_at g2 a))
                 (coin_color (coin_at g2 a)) g2;
          g4 = respawn_coin a g3
      in if score g4 div 10 > level g4 - 1 then level_up g4 else g4)"

definition handle_powerup_collection :: "ref \<Rightarrow> Game \<Rightarrow> (error \<times> Game) + Game" where
  "handle_powerup_collection a g =
     (let g1 = g\<lparr>powerup_at := (powerup_at g)(a := (powerup_at g a)\<lparr>powerup_collected := True\<rparr>)\<rparr>;
          g2 = (case powerup_type (powerup_at g1 a) of
                  shield \<Rightarrow>
                    (case get_ticks g1 of
                       (t, g') \<Rightarrow> g'\<lparr>player := (player g')\<lparr>player_shield := True, player_shield_time := t\<rparr>\<rparr>)
                | speed_boost \<Rightarrow>
                    (case get_ticks g1 of
                       (t, g') \<Rightarrow> g'\<lparr>player := (player g')\<lparr>player_speed_boost := True, player_speed_boost_time := t\<rparr>\<rparr>)
                | extra_life \<Rightarrow> g1\<lparr>lives := lives g1 + 1\<rparr>)
      in case list_remove a (power_ups g2) of
           Inl e \<Rightarrow> Inl (e, g2)
         | Inr l \<Rightarrow> Inr (g2\<lparr>power_ups := l\<rparr>))"

definition game_over :: "Game \<Rightarrow> (error \<times> Game) + Game" where
  "game_over g =
     (let g1 = g\<lparr>state := GAME_OVER\<rparr>
      in if score g1 > high_score g1
         then save_high_score (g1\<lparr>high_score := score g1\<rparr>)
         else Inr g1)"

definition handle_obstacle_collision :: "ref \<Rightarrow> Game \<Rightarrow> (error \<times> Game) + Game" where
  "handle_obstacle_collision a g =
     (if player_shield (player g)
      then (let g1 = g\<lparr>player := (player g)\<lparr>player_shield := False\<rparr>\<rparr>;
                g2 = respawn_obstacle a g1
            in Inr (append_particles 30
                      (of_int (player_x (player g2) + player_width (player g2) div 2))
                      (of_int (player_y (player g2) + player_height (player g2) div 2))
                      CYAN g2))
      else (let g1 = g\<lparr>lives := lives g - 1\<rparr>;
                g2 = respawn_obstacle a g1
            in if lives g2 \<le> 0 then game_over g2
               else Inr (append_particles 30
                           (of_int (player_x (player g2) + player_width (player g2) div 2))
                           (of_int (player_y (player g2) + player_height (player g2) div 2))
                           RED g2)))"

definition reset_game :: "Game \<Rightarrow> Game" where
  "reset_game g =
     reset_game_objects (g\<lparr>player := Player_init, score := 0, level := 1, lives := 1\<rparr>)"

subsubsection \<open>\<open>Game.check_collisions\<close>\<close>

text \<open>
  The coin loop runs over the list object that \<open>self.coins\<close> names when the loop starts;
  a level-up inside the loop rebinds \<open>self.coins\<close> and the loop goes on over the old
  list. The power-up loop runs over the copy \<open>self.power_ups[:]\<close>.
\<close>

definition check_coin :: "ref \<Rightarrow> Game \<Rightarrow> Game" where
  "check_coin a g =
     (let p = player g; c = coin_at g a
      in if player_x p < coin_x c + coin_radius c
            \<and> player_x p + player_width p > coin_x c - coin_radius c
            \<and> of_int (player_y p) < coin_y c + of_int (coin_radius c)
            \<and> of_int (player_y p + player_height p) > coin_y c - of_int (coin_radius c)
            \<and> \<not> coin_collected c
         then handle_coin_collection a g else g)"

definition check_power_up :: "ref \<Rightarrow> Game \<Rightarrow> (error \<times> Game) + Game" where
  "check_power_up a g =
     (let p = player g; pu = powerup_at g a
      in if player_x p < powerup_x pu + powerup_width pu
            \<and> player_x p + player_width p > powerup_x pu
            \<and> player_y p < powerup_y pu + powerup_height pu
            \<and> player_y p + player_height p > powerup_y pu
            \<and> \<not> powerup_collected pu
         then handle_powerup_collection a g else Inr g)"

definition check_obstacle :: "ref \<Rightarrow> Game \<Rightarrow> (error \<times> Game) + Game" where
  "check_obstacle a g =
     (let p = player g; ob = obstacle_at g a
      in if player_x p < obstacle_x ob + obstacle_width ob
            \<and> player_x p + player_width p > obstacle_x ob
            \<and> of_int (player_y p) < obstacle_y ob + of_int (obstacle_height ob)
            \<and> of_int (player_y p + player_height p) > obstacle_y ob
         then handle_obstacle_collision a g else Inr g)"

definition check_collisions :: "Game \<Rightarrow> (error \<times> Game) + Game" where
  "check_collisions g =
     (let g1 = fold check_coin (coins g) g
      in case for_each check_power_up (power_ups g1) g1 of
           Inl e \<Rightarrow> Inl e
         | Inr g2 \<Rightarrow> for_each check_obstacle (obstacles g2) g2)"

subsubsection \<open>\<open>Game.update\<close>\<close>

definition update_obstacle :: "ref \<Rightarrow> Game \<Rightarrow> Game" where
  "update_obstacle a g =
     (let g1 = g\<lparr>obstacle_at := (obstacle_at g)(a := Obstacle_update (obstacle_at g a))\<rparr>
      in if Obstacle_is_off_screen (obstacle_at g1 a) then respawn_obstacle a g1 else g1)"

definition update_coin :: "ref \<Rightarrow> Game \<Rightarrow> Game" where
  "update_coin a g =
     (let g1 = g\<lparr>coin_at := (coin_at g)(a := Coin_update (coin_at g a))\<rparr>
      in if Coin_is_off_screen (coin_at g1 a) then respawn_coin a g1 else g1)"

definition update_power_up :: "ref \<Rightarrow> Game \<Rightarrow> (error \<times> Game) + Game" where
  "update_power_up a g =
     (let g1 = g\<lparr>powerup_at := (powerup_at g)(a := PowerUp_update (powerup_at g a))\<rparr>
      in if PowerUp_is_off_screen (powerup_at g1 a)
         then (case list_remove a (power_ups g1) of
                 Inl e \<Rightarrow> Inl (e, g1)
               | Inr l \<Rightarrow> Inr (g1\<lparr>power_ups := l\<rparr>))
         else Inr g1)"

definition update_particle :: "ref \<Rightarrow> Game \<Rightarrow> (error \<times> Game) + Game" where
  "update_particle a g =
     (let g1 = g\<lparr>particle_at := (particle_at g)(a := Particle_update (particle_at g a))\<rparr>
      in if Particle_is_dead (particle_at g1 a)
         then (case list_remove a (particles g1) of
                 Inl e \<Rightarrow> Inl (e, g1)
               | Inr l \<Rightarrow> Inr (g1\<lparr>particles := l\<rparr>))
         else Inr g1)"

text \<open>
  One frame of the simulation. \<open>keys\<close> is what \<open>pygame.key.get_pressed()\<close> returned; the
  clock is read inside \<open>Player.update\<close>. The loops over \<open>self.power_ups[:]\<close> and
  \<open>self.particles[:]\<close> run over the copies made when they start.
\<close>

definition Game_update :: "keys \<Rightarrow> Game \<Rightarrow> (error \<times> Game) + Game" where
  "Game_update ks g =
     (if state g = PLAYING
      then (case get_ticks g of
              (t, g0) \<Rightarrow>
                (let g1 = g0\<lparr>player := Player_update ks t (player g0)\<rparr>;
                     g2 = fold update_obstacle (obstacles g1) g1;
                     g3 = fold update_coin (coins g2) g2
                 in case for_each update_power_up (power_ups g3) g3 of
                      Inl e \<Rightarrow> Inl e
                    | Inr g4 \<Rightarrow>
                        (let g5 = spawn_power_up g4
                         in case for_each update_particle (particles g5) g5 of
                              Inl e \<Rightarrow> Inl e
                            | Inr g6 \<Rightarrow> check_collisions g6)))
      else Inr g)"

subsubsection \<open>\<open>Game.__init__\<close>\<close>

text \<open>
  The constructor runs in a given environment: the Unicode tables, a generator state, the
  clock readings and a file system. The store is empty: no reference is in use, and every cell holds a
  placeholder that is overwritten when the reference is taken.
\<close>

definition blank_Obstacle :: Obstacle where
  "blank_Obstacle =
     \<lparr>obstacle_width = 0, obstacle_height = 0, obstacle_x = 0, obstacle_y = 0,
      obstacle_speed = 0, obstacle_color = BLACK\<rparr>"

definition blank_Coin :: Coin where
  "blank_Coin =
     \<lparr>coin_radius = 0, coin_x = 0, coin_y = 0, coin_speed = 0, coin_color = BLACK,
      coin_collected = False, coin_animation_frame = 0, coin_value = 1\<rparr>"

definition blank_PowerUp :: PowerUp where
  "blank_PowerUp =
     \<lparr>powerup_width = 0, powerup_height = 0, powerup_x = 0, powerup_y = 0,
      powerup_speed = 0, powerup_type = shield, powerup_collected = False,
      powerup_color = BLACK\<rparr>"

definition blank_Particle :: Particle where
  "blank_Particle =
     \<lparr>particle_x = 0, particle_y = 0, particle_color = BLACK, particle_size = 0,
      particle_speed_x = 0, particle_speed_y = 0, particle_lifetime = 0\<rparr>"

definition Game_init :: "unicode_db \<Rightarrow> rng \<Rightarrow> (nat \<Rightarrow> int) \<Rightarrow> filesystem \<Rightarrow> error + Game" where
  "Game_init db r clock fs =
     (case load_high_score db fs of
        Inl e \<Rightarrow> Inl e
      | Inr hs \<Rightarrow>
          Inr (reset_game_objects
                 \<lparr>state = MENU, player = Player_init, obstacles = [], coins = [],
                  power_ups = [], particles = [], score = 0, high_score = hs, level = 1,
                  lives = 1, dark_mode = True,
                  obstacle_at = (\<lambda>_. blank_Obstacle), coin_at = (\<lambda>_. blank_Coin),
                  powerup_at = (\<lambda>_. blank_PowerUp), particle_at = (\<lambda>_. blank_Particle),
                  next_ref = 0, random = r, ticks = clock, ticks_pos = 0, files = fs\<rparr>))"

subsection \<open>Runs\<close>

text \<open>Coin collections processed one at a time: each is one call of the handler.\<close>

fun collect_coins :: "ref list \<Rightarrow> Game \<Rightarrow> Game" where
  "collect_coins [] g = g"
| "collect_coins (a # as) g = collect_coins as (handle_coin_collection a g)"

subsection \<open>Reading the outcome of a call that can raise\<close>

text \<open>The state of the game after the call, whether it returned or raised.\<close>

definition state_after :: "(error \<times> Game) + Game \<Rightarrow> Game" where
  "state_after r = (case r of Inl (e, g) \<Rightarrow> g | Inr g \<Rightarrow> g)"

subsection \<open>Invariants used in the proofs\<close>

definition player_inv :: "Player \<Rightarrow> bool" where
  "player_inv p = (player_speed p = 10 \<and> player_width p = 50 \<and> - 14 \<le> player_x p \<and> player_x p \<le> 764)"

definition coin_values_ok :: "Game \<Rightarrow> bool" where
  "coin_values_ok g = (\<forall>a. coin_value (coin_at g a) = 1 \<or> coin_value (coin_at g a) = 5)"

definition level_inv :: "Game \<Rightarrow> bool" where
  "level_inv g = (level g = 1 + score g div 10 \<and> coin_values_ok g)"

text \<open>
  The active power-ups and particles are well-formed: no reference is listed twice, every
  listed reference has been taken, a listed power-up is neither collected nor off-screen,
  and a listed particle is alive.
\<close>

definition store_ok :: "Game \<Rightarrow> bool" where
  "store_ok g =
     (distinct (power_ups g) \<and> distinct (particles g)
      \<and> (\<forall>a \<in> set (power_ups g).
            a < next_ref g \<and> \<not> powerup_collected (powerup_at g a)
            \<and> \<not> PowerUp_is_off_screen (powerup_at g a))
      \<and> (\<forall>a \<in> set (particles g). a < next_ref g \<and> \<not> Particle_is_dead (particle_at g a)))"

text \<open>
  What a step from \<open>g\<close> to \<open>g'\<close> may do to the active power-ups and particles: unless the
  level has changed, a reference that leaves a collection denotes a power-up that is
  off-screen or collected, or a dead particle; a reference that enters one is new; and the
  objects that are not listed stay as they are.
\<close>

definition keeps :: "Game \<Rightarrow> Game \<Rightarrow> bool" where
  "keeps g g' =
     (next_ref g \<le> next_ref g' \<and> level g \<le> level g'
      \<and> (level g' = level g \<longrightarrow>
            (\<forall>a \<in> set (power_ups g).
               a \<in> set (power_ups g') \<or> PowerUp_is_off_screen (powerup_at g' a)
               \<or> powerup_collected (powerup_at g' a))
            \<and> (\<forall>a \<in> set (particles g).
                  a \<in> set (particles g') \<or> Particle_is_dead (particle_at g' a)))
      \<and> (\<forall>a \<in> set (power_ups g'). a \<in> set (power_ups g) \<or> next_ref g \<le> a)
      \<and> (\<forall>a \<in> set (particles g'). a \<in> set (particles g) \<or> next_ref g \<le> a)
      \<and> (\<forall>a. a < next_ref g \<longrightarrow> a \<notin> set (power_ups g) \<longrightarrow> powerup_at g' a = powerup_at g a)
      \<and> (\<forall>a. a < next_ref g \<longrightarrow> a \<notin> set (particles g) \<longrightarrow> particle_at g' a = particle_at g a)
      \<and> store_ok g')"

text \<open>
  The only raise of a frame is that of the save at game-over: the file cannot be written, or
  the score has more digits than a conversion allows.
\<close>

definition raises_from_save :: "(error \<times> Game) + Game \<Rightarrow> bool" where
  "raises_from_save r =
     (case r of
        Inl (e, g) \<Rightarrow>
          state g = GAME_OVER
          \<and> ((e = OSError \<and> \<not> writable (files g))
               \<or> (e = ValueError \<and> max_str_digits < length (digits (nat \<bar>score g\<bar>))))
      | Inr g \<Rightarrow> True)"

subsection \<open>Example states\<close>

text \<open>
  A state in the middle of a session: the player at its start position, an obstacle, a
  coin and a power-up overlapping it, one particle in flight, and a score one short of
  the first level threshold.
\<close>

definition example_rng :: rng where
  "example_rng = \<lparr>draws = (\<lambda>n. 1 / 2), pos = 0\<rparr>"

definition example_Obstacle :: Obstacle where
  "example_Obstacle =
     \<lparr>obstacle_width = 150, obstacle_height = 20, obstacle_x = 325, obstacle_y = 730,
      obstacle_speed = 5, obstacle_color = RED\<rparr>"

definition example_Coin :: Coin where
  "example_Coin =
     \<lparr>coin_radius = 15, coin_x = 400, coin_y = 741, coin_speed = 4, coin_color = GOLD,
      coin_collected = False, coin_animation_frame = 189, coin_value = 1\<rparr>"

definition example_PowerUp :: PowerUp where
  "example_PowerUp =
     \<lparr>powerup_width = 30, powerup_height = 30, powerup_x = 380, powerup_y = 750,
      powerup_speed = 3, powerup_type = extra_life, powerup_collected = False,
      powerup_color = GREEN\<rparr>"

definition example_Particle :: Particle where
  "example_Particle =
     \<lparr>particle_x = 400, particle_y = 701, particle_color = GOLD, particle_size = 3,
      particle_speed_x = 1, particle_speed_y = - 2, particle_lifetime = 10\<rparr>"

definition example_game :: Game where
  "example_game =
     \<lparr>state = PLAYING, player = Player_init, obstacles = [0, 1, 2], coins = [3, 4],
      power_ups = [5], particles = [6], score = 9, high_score = 0, level = 1, lives = 1,
      dark_mode = True,
      obstacle_at = (\<lambda>_. example_Obstacle), coin_at = (\<lambda>_. example_Coin),
      powerup_at = (\<lambda>_. example_PowerUp), particle_at = (\<lambda>_. example_Particle),
      next_ref = 7, random = example_rng, ticks = (\<lambda>n. 16 * int n), ticks_pos = 0,
      files = \<lparr>highscore_txt = Missing, readable = True, writable = True\<rparr>\<rparr>"

text \<open>A file system in which the high-score file does not exist and cannot be created.\<close>

definition read_only_files :: filesystem where
  "read_only_files = \<lparr>highscore_txt = Missing, readable = True, writable = False\<rparr>"

text \<open>Twenty-six frames with the left key held, the last twenty-five under speed boost.\<close>

definition left_frames :: "(keys \<times> int \<times> bool) list" where
  "left_frames = (\<lparr>K_LEFT = True, K_RIGHT = False\<rparr>, 0, False)
                 # replicate 25 (\<lparr>K_LEFT = True, K_RIGHT = False\<rparr>, 0, True)"

text \<open>The example state without obstacles and coins, its particle in its last tick.\<close>

definition quiet_game :: Game where
  "quiet_game =
     example_game\<lparr>obstacles := [], coins := [],
                  particle_at := (\<lambda>_. example_Particle\<lparr>particle_lifetime := 1\<rparr>)\<rparr>"

section \<open>Proofs\<close>

lemmas example_defs = example_game_def example_rng_def example_Obstacle_def example_Coin_def
  example_PowerUp_def example_Particle_def Player_init_def read_only_files_def

lemma frac_half: "frac (1 / 2 :: rat) = 1 / 2"
proof -
  have "\<lfloor>1 / 2 :: rat\<rfloor> = 0" by (simp add: floor_eq_iff)
  then show ?thesis by (simp add: frac_def)
qed

lemma state_after_simps [simp]: "state_after (Inl (e, g)) = g" "state_after (Inr g) = g"
  by (simp_all add: state_after_def)

subsection \<open>Player: effect timers and the horizontal range\<close>

lemma Player_update_shield:
  "player_shield (Player_update ks now p) = (player_shield p \<and> now - player_shield_time p \<le> 5000)"
  by (auto simp: Player_update_def Let_def)

lemma Player_update_speed_boost:
  "player_speed_boost (Player_update ks now p) = (player_speed_boost p \<and> now - player_speed_boost_time p \<le> 5000)"
  by (auto simp: Player_update_def Let_def)

lemma Player_update_times:
  "player_shield_time (Player_update ks now p) = player_shield_time p"
  "player_speed_boost_time (Player_update ks now p) = player_speed_boost_time p"
  by (simp_all add: Player_update_def Let_def)

text \<open>
  Claim C3, as amended. A shield or speed-boost effect that is active stays active through
  every polled update whose clock reading \<open>now\<close> has \<open>now - activatedAt \<le> 5000\<close>, the
  reading \<open>activatedAt + 5000\<close> included, and is cleared by the first polled update with
  \<open>now - activatedAt > 5000\<close>: after a run of updates the flag is set exactly when it was
  set before and no reading of the run was more than 5000 ms after the activation.
\<close>

theorem effect_expiry:
  "player_shield (Player_updates fs p)
     = (player_shield p \<and> (\<forall>f \<in> set fs. snd f - player_shield_time p \<le> 5000))
   \<and> player_speed_boost (Player_updates fs p)
     = (player_speed_boost p \<and> (\<forall>f \<in> set fs. snd f - player_speed_boost_time p \<le> 5000))"
proof (induction fs arbitrary: p)
  case Nil
  show ?case by simp
next
  case (Cons f fs)
  obtain ks now where f: "f = (ks, now)" by (cases f)
  show ?case
    unfolding f using Cons.IH [of "Player_update ks now p"]
    by (auto simp: Player_update_shield Player_update_speed_boost Player_update_times)
qed

theorem effect_expiry_witness:
  "player_shield (Player_updates [(\<lparr>K_LEFT = False, K_RIGHT = False\<rparr>, 4000), (\<lparr>K_LEFT = False, K_RIGHT = False\<rparr>, 5000)]
       (Player_init\<lparr>player_shield := True, player_shield_time := 0\<rparr>))
   \<and> \<not> player_shield (Player_updates [(\<lparr>K_LEFT = False, K_RIGHT = False\<rparr>, 5000), (\<lparr>K_LEFT = False, K_RIGHT = False\<rparr>, 5001)]
       (Player_init\<lparr>player_shield := True, player_shield_time := 0\<rparr>))"
  using effect_expiry [of "[(\<lparr>K_LEFT = False, K_RIGHT = False\<rparr>, 4000), (\<lparr>K_LEFT = False, K_RIGHT = False\<rparr>, 5000)]"
       "Player_init\<lparr>player_shield := True, player_shield_time := 0\<rparr>"]
     effect_expiry [of "[(\<lparr>K_LEFT = False, K_RIGHT = False\<rparr>, 5000), (\<lparr>K_LEFT = False, K_RIGHT = False\<rparr>, 5001)]"
       "Player_init\<lparr>player_shield := True, player_shield_time := 0\<rparr>"]
  by simp

text \<open>
  Claim C3 as stated fails: polled at exactly \<open>activatedAt + 5000\<close>, the shield is still
  active after the update.
\<close>

theorem shield_active_at_5000:
  "player_shield (Player_update \<lparr>K_LEFT = False, K_RIGHT = False\<rparr> 5000
       (Player_init\<lparr>player_shield := True, player_shield_time := 0\<rparr>))"
  by (simp add: Player_update_def Player_init_def Let_def)

lemma player_inv_update: "player_inv p \<Longrightarrow> player_inv (Player_update ks now p)"
  by (auto simp: player_inv_def Player_update_def Let_def SCREEN_WIDTH_def py_trunc_def)

lemma player_inv_run: "player_inv p \<Longrightarrow> player_inv (Player_run fs p)"
proof (induction fs arbitrary: p)
  case Nil
  then show ?case by simp
next
  case (Cons f fs)
  obtain ks now boost where f: "f = (ks, now, boost)" by (cases f)
  have "player_inv (p\<lparr>player_speed_boost := boost\<rparr>)"
    using Cons.prems by (simp add: player_inv_def)
  then show ?case
    unfolding f by (simp add: Cons.IH player_inv_update)
qed

lemma player_inv_no_further:
  assumes "player_inv p"
  shows "(player_x p \<le> 0 \<longrightarrow> player_x p \<le> player_x (Player_update ks now p))
       \<and> (SCREEN_WIDTH - player_width p \<le> player_x p \<longrightarrow> player_x (Player_update ks now p) \<le> player_x p)"
  using assms
  by (auto simp: player_inv_def Player_update_def Let_def SCREEN_WIDTH_def py_trunc_def)

text \<open>
  Claim C9. From the initial player, after every run of updates (whatever the keys, the
  clock and the speed-boost flag of each frame) the x coordinate lies in
  \<open>[-(ceil(1.5 * speed) - 1), SCREEN_WIDTH - width + ceil(1.5 * speed) - 1]\<close>, which is
  \<open>[-14, 764]\<close>; and a player at or past an edge is not moved further outward by the
  next update.
\<close>

theorem player_x_bounds:
  assumes "p = Player_run fs Player_init"
  shows "- (\<lceil>3 / 2 * of_int (player_speed p) :: rat\<rceil> - 1) \<le> player_x p
   \<and> player_x p \<le> SCREEN_WIDTH - player_width p + \<lceil>3 / 2 * of_int (player_speed p) :: rat\<rceil> - 1
   \<and> - 14 \<le> player_x p \<and> player_x p \<le> 764
   \<and> (player_x p \<le> 0 \<longrightarrow> player_x p \<le> player_x (Player_update ks now p))
   \<and> (SCREEN_WIDTH - player_width p \<le> player_x p \<longrightarrow> player_x (Player_update ks now p) \<le> player_x p)"
proof -
  have "player_inv Player_init"
    by (simp add: player_inv_def Player_init_def SCREEN_WIDTH_def)
  then have inv: "player_inv p"
    unfolding assms by (rule player_inv_run)
  have c: "\<lceil>3 / 2 * of_int 10 :: rat\<rceil> = 15" by simp
  show ?thesis
    using inv c player_inv_no_further [OF inv, of ks now]
    by (simp add: player_inv_def SCREEN_WIDTH_def)
qed

lemma left_run: "player_x (Player_run left_frames Player_init) = - 10"
  by code_simp

theorem player_x_bounds_witness:
  "player_x (Player_run left_frames Player_init) = - 10
   \<and> player_x (Player_run left_frames Player_init)
       \<le> player_x (Player_update \<lparr>K_LEFT = True, K_RIGHT = False\<rparr> 0 (Player_run left_frames Player_init))"
  using player_x_bounds [of "Player_run left_frames Player_init" left_frames
      "\<lparr>K_LEFT = True, K_RIGHT = False\<rparr>" 0] left_run
  by simp

subsection \<open>Off-screen tests\<close>

text \<open>
  Claim C6, as amended. \<open>is_off_screen\<close> of an Obstacle, a Coin and a PowerUp is true
  exactly when the entity's \<open>y\<close> coordinate (the top edge of an obstacle or power-up, the
  centre of a coin) is greater than \<open>SCREEN_HEIGHT\<close>. For an obstacle or power-up of
  non-negative height that is exactly when every point between its top and bottom edge is
  below the bottom boundary; an off-screen coin can have its top edge on the screen. With
  a non-negative height or radius the bottom edge of an off-screen entity has passed the
  bottom boundary; the converse does not hold: with \<open>y\<close> at most \<open>SCREEN_HEIGHT\<close> the entity
  is not off-screen, wherever its bottom edge is.
\<close>

theorem off_screen_iff:
  "(Obstacle_is_off_screen ob \<longleftrightarrow> obstacle_y ob > of_int SCREEN_HEIGHT)
   \<and> (Coin_is_off_screen c \<longleftrightarrow> coin_y c > of_int SCREEN_HEIGHT)
   \<and> (PowerUp_is_off_screen pu \<longleftrightarrow> powerup_y pu > SCREEN_HEIGHT)
   \<and> (0 \<le> obstacle_height ob \<longrightarrow> Obstacle_is_off_screen ob \<longrightarrow>
        obstacle_y ob + of_int (obstacle_height ob) > of_int SCREEN_HEIGHT)
   \<and> (0 \<le> coin_radius c \<longrightarrow> Coin_is_off_screen c \<longrightarrow>
        coin_y c + of_int (coin_radius c) > of_int SCREEN_HEIGHT)
   \<and> (0 \<le> powerup_height pu \<longrightarrow> PowerUp_is_off_screen pu \<longrightarrow>
        powerup_y pu + powerup_height pu > SCREEN_HEIGHT)
   \<and> (0 \<le> obstacle_height ob \<longrightarrow>
        (Obstacle_is_off_screen ob \<longleftrightarrow>
           (\<forall>t. obstacle_y ob \<le> t \<and> t \<le> obstacle_y ob + of_int (obstacle_height ob)
                \<longrightarrow> of_int SCREEN_HEIGHT < t)))
   \<and> (0 \<le> powerup_height pu \<longrightarrow>
        (PowerUp_is_off_screen pu \<longleftrightarrow>
           (\<forall>t. powerup_y pu \<le> t \<and> t \<le> powerup_y pu + powerup_height pu
                \<longrightarrow> SCREEN_HEIGHT < t)))
   \<and> (obstacle_y ob \<le> of_int SCREEN_HEIGHT \<longrightarrow> \<not> Obstacle_is_off_screen ob)
   \<and> (coin_y c \<le> of_int SCREEN_HEIGHT \<longrightarrow> \<not> Coin_is_off_screen c)
   \<and> (powerup_y pu \<le> SCREEN_HEIGHT \<longrightarrow> \<not> PowerUp_is_off_screen pu)"
proof -
  have o: "0 \<le> obstacle_height ob \<longrightarrow>
        (Obstacle_is_off_screen ob \<longleftrightarrow>
           (\<forall>t. obstacle_y ob \<le> t \<and> t \<le> obstacle_y ob + of_int (obstacle_height ob)
                \<longrightarrow> of_int SCREEN_HEIGHT < t))"
  proof (intro impI iffI allI)
    fix t assume "Obstacle_is_off_screen ob"
      and "obstacle_y ob \<le> t \<and> t \<le> obstacle_y ob + of_int (obstacle_height ob)"
    then show "of_int SCREEN_HEIGHT < t" by (simp add: Obstacle_is_off_screen_def)
  next
    assume h: "0 \<le> obstacle_height ob"
      and a: "\<forall>t. obstacle_y ob \<le> t \<and> t \<le> obstacle_y ob + of_int (obstacle_height ob)
                \<longrightarrow> of_int SCREEN_HEIGHT < t"
    have "obstacle_y ob \<le> obstacle_y ob + of_int (obstacle_height ob)" using h by simp
    then have "of_int SCREEN_HEIGHT < obstacle_y ob" using a by blast
    then show "Obstacle_is_off_screen ob" by (simp add: Obstacle_is_off_screen_def)
  qed
  have p: "0 \<le> powerup_height pu \<longrightarrow>
        (PowerUp_is_off_screen pu \<longleftrightarrow>
           (\<forall>t. powerup_y pu \<le> t \<and> t \<le> powerup_y pu + powerup_height pu
                \<longrightarrow> SCREEN_HEIGHT < t))"
  proof (intro impI iffI allI)
    fix t assume "PowerUp_is_off_screen pu"
      and "powerup_y pu \<le> t \<and> t \<le> powerup_y pu + powerup_height pu"
    then show "SCREEN_HEIGHT < t" by (simp add: PowerUp_is_off_screen_def)
  next
    assume h: "0 \<le> powerup_height pu"
      and a: "\<forall>t. powerup_y pu \<le> t \<and> t \<le> powerup_y pu + powerup_height pu
                \<longrightarrow> SCREEN_HEIGHT < t"
    have "powerup_y pu \<le> powerup_y pu + powerup_height pu" using h by simp
    then have "SCREEN_HEIGHT < powerup_y pu" using a by blast
    then show "PowerUp_is_off_screen pu" by (simp add: PowerUp_is_off_screen_def)
  qed
  show ?thesis
    using o p
    by (simp add: Obstacle_is_off_screen_def Coin_is_off_screen_def PowerUp_is_off_screen_def)
qed

theorem off_screen_iff_witness:
  "0 \<le> obstacle_height (example_Obstacle\<lparr>obstacle_y := 801\<rparr>)
   \<and> Obstacle_is_off_screen (example_Obstacle\<lparr>obstacle_y := 801\<rparr>)
   \<and> obstacle_y (example_Obstacle\<lparr>obstacle_y := 801\<rparr>)
       + of_int (obstacle_height (example_Obstacle\<lparr>obstacle_y := 801\<rparr>)) > of_int SCREEN_HEIGHT
   \<and> 0 \<le> coin_radius (example_Coin\<lparr>coin_y := 801\<rparr>)
   \<and> Coin_is_off_screen (example_Coin\<lparr>coin_y := 801\<rparr>)
   \<and> 0 \<le> powerup_height (example_PowerUp\<lparr>powerup_y := 801\<rparr>)
   \<and> PowerUp_is_off_screen (example_PowerUp\<lparr>powerup_y := 801\<rparr>)
   \<and> coin_y (example_Coin\<lparr>coin_y := 801\<rparr>)
       - of_int (coin_radius (example_Coin\<lparr>coin_y := 801\<rparr>)) \<le> of_int SCREEN_HEIGHT
   \<and> obstacle_y example_Obstacle \<le> of_int SCREEN_HEIGHT
   \<and> \<not> Obstacle_is_off_screen example_Obstacle"
  using off_screen_iff [of "example_Obstacle\<lparr>obstacle_y := 801\<rparr>" "example_Coin\<lparr>coin_y := 801\<rparr>"
       "example_PowerUp\<lparr>powerup_y := 801\<rparr>"]
    off_screen_iff [of example_Obstacle example_Coin example_PowerUp]
  by (simp add: example_defs SCREEN_HEIGHT_def)

text \<open>
  Claim C6 as stated fails: an obstacle of height 20 at \<open>y = 790\<close> has its bottom edge at
  810, below the bottom boundary, and is not off-screen.
\<close>

theorem off_screen_bottom_edge_counterexample:
  "obstacle_y (example_Obstacle\<lparr>obstacle_y := 790\<rparr>)
     + of_int (obstacle_height (example_Obstacle\<lparr>obstacle_y := 790\<rparr>)) > of_int SCREEN_HEIGHT
   \<and> \<not> Obstacle_is_off_screen (example_Obstacle\<lparr>obstacle_y := 790\<rparr>)"
  by (simp add: example_Obstacle_def Obstacle_is_off_screen_def SCREEN_HEIGHT_def)

subsection \<open>Particles, respawns and resets: what each changes\<close>

lemma append_particle_frame [simp]:
  "state (append_particle x y c g) = state g"
  "player (append_particle x y c g) = player g"
  "obstacles (append_particle x y c g) = obstacles g"
  "coins (append_particle x y c g) = coins g"
  "power_ups (append_particle x y c g) = power_ups g"
  "score (append_particle x y c g) = score g"
  "high_score (append_particle x y c g) = high_score g"
  "level (append_particle x y c g) = level g"
  "lives (append_particle x y c g) = lives g"
  "obstacle_at (append_particle x y c g) = obstacle_at g"
  "coin_at (append_particle x y c g) = coin_at g"
  "powerup_at (append_particle x y c g) = powerup_at g"
  "files (append_particle x y c g) = files g"
  "next_ref (append_particle x y c g) = Suc (next_ref g)"
  "particles (append_particle x y c g) = particles g @ [next_ref g]"
  by (simp_all add: append_particle_def new_Particle_def split: prod.splits)

lemma Particle_init_fields:
  "particle_x (fst (Particle_init x y c r)) = x"
  "particle_y (fst (Particle_init x y c r)) = y"
  "particle_color (fst (Particle_init x y c r)) = c"
  by (simp_all add: Particle_init_def split: prod.splits)

lemma append_particle_store:
  "particle_at (append_particle x y c g) =
     (particle_at g)(next_ref g := fst (Particle_init x y c (random g)))"
  by (simp add: append_particle_def new_Particle_def split: prod.splits)

lemma append_particles_frame [simp]:
  "state (append_particles n x y c g) = state g"
  "player (append_particles n x y c g) = player g"
  "obstacles (append_particles n x y c g) = obstacles g"
  "coins (append_particles n x y c g) = coins g"
  "power_ups (append_particles n x y c g) = power_ups g"
  "score (append_particles n x y c g) = score g"
  "high_score (append_particles n x y c g) = high_score g"
  "level (append_particles n x y c g) = level g"
  "lives (append_particles n x y c g) = lives g"
  "obstacle_at (append_particles n x y c g) = obstacle_at g"
  "coin_at (append_particles n x y c g) = coin_at g"
  "powerup_at (append_particles n x y c g) = powerup_at g"
  "files (append_particles n x y c g) = files g"
  "next_ref (append_particles n x y c g) = next_ref g + n"
  by (induction n arbitrary: g; simp)+

lemma append_particles_list:
  "particles (append_particles n x y c g) = particles g @ [next_ref g ..< next_ref g + n]"
proof (induction n arbitrary: g)
  case 0
  show ?case by simp
next
  case (Suc n)
  show ?case by (simp add: Suc.IH upt_rec [of "next_ref g"])
qed

lemma append_particles_old:
  "b < next_ref g \<Longrightarrow> particle_at (append_particles n x y c g) b = particle_at g b"
  by (induction n arbitrary: g) (simp_all add: append_particle_store)

lemma append_particles_new:
  "next_ref g \<le> b \<Longrightarrow> b < next_ref g + n \<Longrightarrow>
     particle_x (particle_at (append_particles n x y c g) b) = x
     \<and> particle_y (particle_at (append_particles n x y c g) b) = y
     \<and> particle_color (particle_at (append_particles n x y c g) b) = c"
proof (induction n arbitrary: g)
  case 0
  then show ?case by simp
next
  case (Suc n)
  show ?case
  proof (cases "b = next_ref g")
    case True
    then show ?thesis
      by (simp add: append_particles_old append_particle_store Particle_init_fields)
  next
    case False
    then show ?thesis using Suc.prems Suc.IH [of "append_particle x y c g"] by simp
  qed
qed

lemma respawn_obstacle_frame [simp]:
  "state (respawn_obstacle a g) = state g"
  "player (respawn_obstacle a g) = player g"
  "obstacles (respawn_obstacle a g) = obstacles g"
  "coins (respawn_obstacle a g) = coins g"
  "power_ups (respawn_obstacle a g) = power_ups g"
  "particles (respawn_obstacle a g) = particles g"
  "score (respawn_obstacle a g) = score g"
  "high_score (respawn_obstacle a g) = high_score g"
  "level (respawn_obstacle a g) = level g"
  "lives (respawn_obstacle a g) = lives g"
  "coin_at (respawn_obstacle a g) = coin_at g"
  "powerup_at (respawn_obstacle a g) = powerup_at g"
  "particle_at (respawn_obstacle a g) = particle_at g"
  "files (respawn_obstacle a g) = files g"
  "next_ref (respawn_obstacle a g) = next_ref g"
  by (simp_all add: respawn_obstacle_def split: prod.splits)

lemma respawn_obstacle_store:
  "obstacle_at (respawn_obstacle a g) = (obstacle_at g)(a := fst (Obstacle_respawn (obstacle_at g a) (random g)))"
  by (simp add: respawn_obstacle_def split: prod.splits)

lemma game_over_state: 
  "state (state_after (game_over g)) = GAME_OVER"
  "lives (state_after (game_over g)) = lives g"
  "particles (state_after (game_over g)) = particles g"
  "obstacle_at (state_after (game_over g)) = obstacle_at g"
  "particle_at (state_after (game_over g)) = particle_at g"
  by (simp_all add: game_over_def save_high_score_def Let_def split: sum.splits)

lemma new_Coin_frame [simp]:
  "score (snd (new_Coin g)) = score g"
  "level (snd (new_Coin g)) = level g"
  "power_ups (snd (new_Coin g)) = power_ups g"
  "particles (snd (new_Coin g)) = particles g"
  by (simp_all add: new_Coin_def split: prod.splits)

lemma new_Obstacle_frame [simp]:
  "score (snd (new_Obstacle g)) = score g"
  "level (snd (new_Obstacle g)) = level g"
  "coin_at (snd (new_Obstacle g)) = coin_at g"
  "power_ups (snd (new_Obstacle g)) = power_ups g"
  "particles (snd (new_Obstacle g)) = particles g"
  by (simp_all add: new_Obstacle_def split: prod.splits)

lemma new_Obstacles_Suc_snd:
  "snd (new_Obstacles (Suc n) g) = snd (new_Obstacles n (snd (new_Obstacle g)))"
  by (simp add: split_beta)

lemma new_Coins_Suc_snd:
  "snd (new_Coins (Suc n) g) = snd (new_Coins n (snd (new_Coin g)))"
  by (simp add: split_beta)

lemma new_Obstacles_frame [simp]:
  "score (snd (new_Obstacles n g)) = score g"
  "level (snd (new_Obstacles n g)) = level g"
  "coin_at (snd (new_Obstacles n g)) = coin_at g"
  by (induction n arbitrary: g; simp add: new_Obstacles_Suc_snd del: new_Obstacles.simps(2))+

lemma new_Coins_frame [simp]:
  "score (snd (new_Coins n g)) = score g"
  "level (snd (new_Coins n g)) = level g"
  by (induction n arbitrary: g; simp add: new_Coins_Suc_snd del: new_Coins.simps(2))+

lemma Coin_init_value: "coin_value (fst (Coin_init r)) = 1"
  by (simp add: Coin_init_def Coin_reset_position_def split: prod.splits)

lemma Coin_respawn_value:
  "coin_value (fst (Coin_respawn c r)) = 1 \<or> coin_value (fst (Coin_respawn c r)) = 5"
  by (simp add: Coin_respawn_def Let_def split: prod.splits)

lemma new_Coin_values: "coin_values_ok g \<Longrightarrow> coin_values_ok (snd (new_Coin g))"
  using Coin_init_value [of "random g"]
  by (auto simp: coin_values_ok_def new_Coin_def split: prod.splits)

lemma new_Coins_values: "coin_values_ok g \<Longrightarrow> coin_values_ok (snd (new_Coins n g))"
proof (induction n arbitrary: g)
  case 0
  then show ?case by simp
next
  case (Suc n)
  have "coin_values_ok (snd (new_Coins n (snd (new_Coin g))))"
    using Suc.prems by (intro Suc.IH new_Coin_values)
  then show ?case by (simp only: new_Coins_Suc_snd)
qed

lemma reset_game_objects_score_level [simp]:
  "score (reset_game_objects g) = score g"
  "level (reset_game_objects g) = level g"
  by (simp_all add: reset_game_objects_def split_beta)

lemma reset_game_objects_values:
  assumes "coin_values_ok g"
  shows "coin_values_ok (reset_game_objects g)"
proof -
  let ?g1 = "snd (new_Obstacles (nat (min (3 + level g div 2) 5)) g)"
  let ?obs = "fst (new_Obstacles (nat (min (3 + level g div 2) 5)) g)"
  have "coin_values_ok (?g1\<lparr>obstacles := ?obs\<rparr>)"
    using assms by (simp add: coin_values_ok_def)
  then have "coin_values_ok (snd (new_Coins (nat (min (2 + level g div 3) 5)) (?g1\<lparr>obstacles := ?obs\<rparr>)))"
    by (rule new_Coins_values)
  then show ?thesis
    by (simp add: reset_game_objects_def split_beta coin_values_ok_def)
qed

lemma reset_game_objects_clears [simp]:
  "power_ups (reset_game_objects g) = []"
  "particles (reset_game_objects g) = []"
  by (simp_all add: reset_game_objects_def split: prod.splits)

lemma respawn_coin_frame [simp]:
  "score (respawn_coin a g) = score g"
  "level (respawn_coin a g) = level g"
  "power_ups (respawn_coin a g) = power_ups g"
  "particles (respawn_coin a g) = particles g"
  by (simp_all add: respawn_coin_def split: prod.splits)

lemma respawn_coin_values: "coin_values_ok g \<Longrightarrow> coin_values_ok (respawn_coin a g)"
  using Coin_respawn_value [of "coin_at g a" "random g"]
  by (auto simp: coin_values_ok_def respawn_coin_def split: prod.splits)

subsection \<open>Obstacle collisions\<close>

lemma random_randint_range:
  assumes "a \<le> b"
  shows "a \<le> fst (random_randint a b r) \<and> fst (random_randint a b r) \<le> b"
proof -
  let ?u = "frac (draws r (pos r))"
  let ?n = "of_int (b - a + 1) :: rat"
  have n: "0 < ?n" using assms by simp
  have "0 \<le> ?u * ?n" using n by (intro mult_nonneg_nonneg) simp_all
  then have lo: "0 \<le> \<lfloor>?u * ?n\<rfloor>" by simp
  have "?u * ?n < 1 * ?n" using n by (intro mult_strict_right_mono frac_lt_1)
  then have "?u * ?n < of_int (b - a + 1)" by simp
  then have hi: "\<lfloor>?u * ?n\<rfloor> < b - a + 1" by (simp only: floor_less_iff)
  show ?thesis
    using lo hi by (simp add: random_randint_def random_random_def)
qed

lemma Obstacle_respawn_effect:
  "obstacle_y (fst (Obstacle_respawn ob r)) = - of_int (obstacle_height ob)"
  "obstacle_height (fst (Obstacle_respawn ob r)) = obstacle_height ob"
  "100 \<le> obstacle_width (fst (Obstacle_respawn ob r))"
  "obstacle_width (fst (Obstacle_respawn ob r)) \<le> 200"
  "0 \<le> obstacle_x (fst (Obstacle_respawn ob r))"
  "obstacle_x (fst (Obstacle_respawn ob r))
     \<le> SCREEN_WIDTH - obstacle_width (fst (Obstacle_respawn ob r))"
  "obstacle_speed ob < obstacle_speed (fst (Obstacle_respawn ob r))"
  "obstacle_color (fst (Obstacle_respawn ob r)) = obstacle_color ob"
proof -
  let ?w = "fst (random_randint 100 200 r)"
  let ?r1 = "snd (random_randint 100 200 r)"
  let ?x = "fst (random_randint 0 (SCREEN_WIDTH - ?w) ?r1)"
  have ob': "fst (Obstacle_respawn ob r)
      = ob\<lparr>obstacle_width := ?w, obstacle_x := ?x,
            obstacle_y := - of_int (obstacle_height ob),
            obstacle_speed := obstacle_speed ob + 3 / 10\<rparr>"
    by (simp add: Obstacle_respawn_def Obstacle_reset_position_def split_beta)
  have w: "100 \<le> ?w \<and> ?w \<le> 200" by (rule random_randint_range) simp
  then have "0 \<le> SCREEN_WIDTH - ?w" by (simp add: SCREEN_WIDTH_def)
  then have x: "0 \<le> ?x \<and> ?x \<le> SCREEN_WIDTH - ?w" by (rule random_randint_range)
  show "obstacle_y (fst (Obstacle_respawn ob r)) = - of_int (obstacle_height ob)"
    "obstacle_height (fst (Obstacle_respawn ob r)) = obstacle_height ob"
    "100 \<le> obstacle_width (fst (Obstacle_respawn ob r))"
    "obstacle_width (fst (Obstacle_respawn ob r)) \<le> 200"
    "0 \<le> obstacle_x (fst (Obstacle_respawn ob r))"
    "obstacle_x (fst (Obstacle_respawn ob r))
       \<le> SCREEN_WIDTH - obstacle_width (fst (Obstacle_respawn ob r))"
    "obstacle_speed ob < obstacle_speed (fst (Obstacle_respawn ob r))"
    "obstacle_color (fst (Obstacle_respawn ob r)) = obstacle_color ob"
    using w x by (simp_all add: ob')
qed

lemma handle_obstacle_collision_obstacles:
  "obstacle_at (state_after (handle_obstacle_collision a g))
     = (obstacle_at g)(a := fst (Obstacle_respawn (obstacle_at g a) (random g)))"
  by (simp add: handle_obstacle_collision_def Let_def game_over_state respawn_obstacle_store)

lemma example_respawn:
  "fst (Obstacle_respawn example_Obstacle example_rng)
     = \<lparr>obstacle_width = 150, obstacle_height = 20, obstacle_x = 325, obstacle_y = - 20,
        obstacle_speed = 53 / 10, obstacle_color = RED\<rparr>"
proof -
  have "\<lfloor>101 / 2 :: rat\<rfloor> = 50" "\<lfloor>651 / 2 :: rat\<rfloor> = 325"
    by (simp_all add: floor_eq_iff)
  then show ?thesis
    by (simp add: Obstacle_respawn_def Obstacle_reset_position_def random_randint_def
          random_random_def example_Obstacle_def example_rng_def frac_half SCREEN_WIDTH_def)
qed

text \<open>
  Claim C2, as amended. For every obstacle collision while the shield is not active,
  \<open>lives\<close> is decremented by 1 and the obstacle is respawned: it is put just above the top
  edge (\<open>y = -height\<close>) with a new width in \<open>[100, 200]\<close>, at an \<open>x\<close> that keeps it within the
  screen, and with a higher speed; no other obstacle changes. If \<open>lives \<le> 0\<close> afterward,
  the mode becomes \<open>GAME_OVER\<close> and no particle is spawned. Otherwise the call returns,
  the mode is unchanged, and 30 red particles are appended, each at the player's centre.
\<close>

theorem obstacle_hit_unshielded:
  assumes "\<not> player_shield (player g)"
    and "g' = state_after (handle_obstacle_collision a g)"
  shows "lives g' = lives g - 1
    \<and> obstacle_y (obstacle_at g' a) = - of_int (obstacle_height (obstacle_at g' a))
    \<and> obstacle_height (obstacle_at g' a) = obstacle_height (obstacle_at g a)
    \<and> 100 \<le> obstacle_width (obstacle_at g' a) \<and> obstacle_width (obstacle_at g' a) \<le> 200
    \<and> 0 \<le> obstacle_x (obstacle_at g' a)
    \<and> obstacle_x (obstacle_at g' a) \<le> SCREEN_WIDTH - obstacle_width (obstacle_at g' a)
    \<and> obstacle_speed (obstacle_at g a) < obstacle_speed (obstacle_at g' a)
    \<and> obstacle_color (obstacle_at g' a) = obstacle_color (obstacle_at g a)
    \<and> (\<forall>b. b \<noteq> a \<longrightarrow> obstacle_at g' b = obstacle_at g b)
    \<and> (lives g - 1 \<le> 0 \<longrightarrow> state g' = GAME_OVER \<and> particles g' = particles g)
    \<and> (0 < lives g - 1 \<longrightarrow>
         handle_obstacle_collision a g = Inr g'
         \<and> state g' = state g
         \<and> particles g' = particles g @ [next_ref g ..< next_ref g + 30]
         \<and> (\<forall>b \<in> set [next_ref g ..< next_ref g + 30].
               particle_x (particle_at g' b)
                 = of_int (player_x (player g) + player_width (player g) div 2)
               \<and> particle_y (particle_at g' b)
                 = of_int (player_y (player g) + player_height (player g) div 2)
               \<and> particle_color (particle_at g' b) = RED))"
proof -
  have ob: "obstacle_at g' = (obstacle_at g)(a := fst (Obstacle_respawn (obstacle_at g a) (random g)))"
    unfolding assms(2) by (rule handle_obstacle_collision_obstacles)
  note eff = Obstacle_respawn_effect [of "obstacle_at g a" "random g"]
  have respawned:
    "obstacle_y (obstacle_at g' a) = - of_int (obstacle_height (obstacle_at g' a))
    \<and> obstacle_height (obstacle_at g' a) = obstacle_height (obstacle_at g a)
    \<and> 100 \<le> obstacle_width (obstacle_at g' a) \<and> obstacle_width (obstacle_at g' a) \<le> 200
    \<and> 0 \<le> obstacle_x (obstacle_at g' a)
    \<and> obstacle_x (obstacle_at g' a) \<le> SCREEN_WIDTH - obstacle_width (obstacle_at g' a)
    \<and> obstacle_speed (obstacle_at g a) < obstacle_speed (obstacle_at g' a)
    \<and> obstacle_color (obstacle_at g' a) = obstacle_color (obstacle_at g a)
    \<and> (\<forall>b. b \<noteq> a \<longrightarrow> obstacle_at g' b = obstacle_at g b)"
    using eff by (simp add: ob)
  show ?thesis
  proof (cases "lives g - 1 \<le> 0")
    case True
    then have "handle_obstacle_collision a g
               = game_over (respawn_obstacle a (g\<lparr>lives := lives g - 1\<rparr>))"
      using assms(1) by (simp add: handle_obstacle_collision_def Let_def)
    then have "lives g' = lives g - 1 \<and> state g' = GAME_OVER \<and> particles g' = particles g"
      by (simp add: assms(2) game_over_state)
    then show ?thesis using True respawned by simp
  next
    case False
    let ?g2 = "respawn_obstacle a (g\<lparr>lives := lives g - 1\<rparr>)"
    let ?x = "of_int (player_x (player g) + player_width (player g) div 2) :: rat"
    let ?y = "of_int (player_y (player g) + player_height (player g) div 2) :: rat"
    have eq: "handle_obstacle_collision a g = Inr (append_particles 30 ?x ?y RED ?g2)"
      using assms(1) False by (simp add: handle_obstacle_collision_def Let_def)
    then have g': "g' = append_particles 30 ?x ?y RED ?g2" by (simp add: assms(2))
    have new: "\<forall>b \<in> set [next_ref g ..< next_ref g + 30].
         particle_x (particle_at (append_particles 30 ?x ?y RED ?g2) b) = ?x
         \<and> particle_y (particle_at (append_particles 30 ?x ?y RED ?g2) b) = ?y
         \<and> particle_color (particle_at (append_particles 30 ?x ?y RED ?g2) b) = RED"
      using append_particles_new [of ?g2 _ 30 ?x ?y RED] by simp
    have rest: "lives g' = lives g - 1 \<and> handle_obstacle_collision a g = Inr g'
         \<and> state g' = state g
         \<and> particles g' = particles g @ [next_ref g ..< next_ref g + 30]
         \<and> (\<forall>b \<in> set [next_ref g ..< next_ref g + 30].
               particle_x (particle_at g' b) = ?x
               \<and> particle_y (particle_at g' b) = ?y
               \<and> particle_color (particle_at g' b) = RED)"
      unfolding g' using eq new by (simp add: append_particles_list)
    show ?thesis using False respawned rest by simp
  qed
qed

theorem obstacle_hit_unshielded_witness:
  "\<not> player_shield (player example_game)
   \<and> state (state_after (handle_obstacle_collision 0 example_game)) = GAME_OVER
   \<and> obstacle_y (obstacle_at (state_after (handle_obstacle_collision 0 example_game)) 0) = - 20
   \<and> obstacle_width (obstacle_at (state_after (handle_obstacle_collision 0 example_game)) 0) = 150
   \<and> obstacle_x (obstacle_at (state_after (handle_obstacle_collision 0 example_game)) 0) = 325
   \<and> 5 < obstacle_speed (obstacle_at (state_after (handle_obstacle_collision 0 example_game)) 0)
   \<and> obstacle_at (state_after (handle_obstacle_collision 0 example_game)) 1 = example_Obstacle
   \<and> lives (state_after (handle_obstacle_collision 0 (example_game\<lparr>lives := 3\<rparr>))) = 2
   \<and> particles (state_after (handle_obstacle_collision 0 (example_game\<lparr>lives := 3\<rparr>)))
       = [6] @ [7 ..< 37]
   \<and> particle_color (particle_at (state_after (handle_obstacle_collision 0 (example_game\<lparr>lives := 3\<rparr>))) 7) = RED"
proof -
  have w: "obstacle_at (state_after (handle_obstacle_collision 0 example_game)) 0
      = \<lparr>obstacle_width = 150, obstacle_height = 20, obstacle_x = 325, obstacle_y = - 20,
         obstacle_speed = 53 / 10, obstacle_color = RED\<rparr>"
    using example_respawn by (simp add: handle_obstacle_collision_obstacles example_game_def)
  show ?thesis
    using obstacle_hit_unshielded [of example_game _ 0, OF _ refl]
      obstacle_hit_unshielded [of "example_game\<lparr>lives := 3\<rparr>" _ 0, OF _ refl]
    by (simp add: w) (simp add: example_defs)
qed

text \<open>
  Claim C2 as stated fails: with one life left, an unshielded hit ends the game and
  spawns no particle.
\<close>

theorem unshielded_hit_without_particles:
  "\<not> player_shield (player example_game)
   \<and> lives (state_after (handle_obstacle_collision 0 example_game)) = 0
   \<and> state (state_after (handle_obstacle_collision 0 example_game)) = GAME_OVER
   \<and> particles (state_after (handle_obstacle_collision 0 example_game)) = particles example_game"
proof -
  have "handle_obstacle_collision 0 example_game
        = game_over (respawn_obstacle 0 (example_game\<lparr>lives := lives example_game - 1\<rparr>))"
    by (simp add: handle_obstacle_collision_def Let_def example_defs)
  then show ?thesis
    by (simp add: game_over_state) (simp add: example_defs)
qed

text \<open>
  Claim C4. For every obstacle collision while the shield is active, the call returns
  with the shield flag false, \<open>lives\<close> and the mode unchanged, the obstacle respawned (put
  just above the top edge, \<open>y = -height\<close>, with a new width in \<open>[100, 200]\<close>, at an \<open>x\<close> that
  keeps it within the screen, and with a higher speed; no other obstacle changes), and
  30 cyan particles appended, each at the player's centre.
\<close>

theorem obstacle_hit_shielded:
  assumes "player_shield (player g)"
  shows "\<exists>g'. handle_obstacle_collision a g = Inr g'
    \<and> \<not> player_shield (player g')
    \<and> lives g' = lives g
    \<and> state g' = state g
    \<and> obstacle_y (obstacle_at g' a) = - of_int (obstacle_height (obstacle_at g' a))
    \<and> obstacle_height (obstacle_at g' a) = obstacle_height (obstacle_at g a)
    \<and> 100 \<le> obstacle_width (obstacle_at g' a) \<and> obstacle_width (obstacle_at g' a) \<le> 200
    \<and> 0 \<le> obstacle_x (obstacle_at g' a)
    \<and> obstacle_x (obstacle_at g' a) \<le> SCREEN_WIDTH - obstacle_width (obstacle_at g' a)
    \<and> obstacle_speed (obstacle_at g a) < obstacle_speed (obstacle_at g' a)
    \<and> obstacle_color (obstacle_at g' a) = obstacle_color (obstacle_at g a)
    \<and> (\<forall>b. b \<noteq> a \<longrightarrow> obstacle_at g' b = obstacle_at g b)
    \<and> particles g' = particles g @ [next_ref g ..< next_ref g + 30]
    \<and> (\<forall>b \<in> set [next_ref g ..< next_ref g + 30].
          particle_x (particle_at g' b) = of_int (player_x (player g) + player_width (player g) div 2)
          \<and> particle_y (particle_at g' b) = of_int (player_y (player g) + player_height (player g) div 2)
          \<and> particle_color (particle_at g' b) = CYAN)"
proof -
  let ?g2 = "respawn_obstacle a (g\<lparr>player := (player g)\<lparr>player_shield := False\<rparr>\<rparr>)"
  let ?x = "of_int (player_x (player g) + player_width (player g) div 2) :: rat"
  let ?y = "of_int (player_y (player g) + player_height (player g) div 2) :: rat"
  let ?g' = "append_particles 30 ?x ?y CYAN ?g2"
  have eq: "handle_obstacle_collision a g = Inr ?g'"
    using assms by (simp add: handle_obstacle_collision_def Let_def)
  have ob: "obstacle_at ?g' = (obstacle_at g)(a := fst (Obstacle_respawn (obstacle_at g a) (random g)))"
    using handle_obstacle_collision_obstacles [of a g] by (simp add: eq)
  note eff = Obstacle_respawn_effect [of "obstacle_at g a" "random g"]
  have respawned:
    "obstacle_y (obstacle_at ?g' a) = - of_int (obstacle_height (obstacle_at ?g' a))
    \<and> obstacle_height (obstacle_at ?g' a) = obstacle_height (obstacle_at g a)
    \<and> 100 \<le> obstacle_width (obstacle_at ?g' a) \<and> obstacle_width (obstacle_at ?g' a) \<le> 200
    \<and> 0 \<le> obstacle_x (obstacle_at ?g' a)
    \<and> obstacle_x (obstacle_at ?g' a) \<le> SCREEN_WIDTH - obstacle_width (obstacle_at ?g' a)
    \<and> obstacle_speed (obstacle_at g a) < obstacle_speed (obstacle_at ?g' a)
    \<and> obstacle_color (obstacle_at ?g' a) = obstacle_color (obstacle_at g a)
    \<and> (\<forall>b. b \<noteq> a \<longrightarrow> obstacle_at ?g' b = obstacle_at g b)"
    using eff by (simp only: ob) simp
  have new: "\<forall>b \<in> set [next_ref g ..< next_ref g + 30].
       particle_x (particle_at ?g' b) = ?x
       \<and> particle_y (particle_at ?g' b) = ?y
       \<and> particle_color (particle_at ?g' b) = CYAN"
    using append_particles_new [of ?g2 _ 30 ?x ?y CYAN] by simp
  have rest: "\<not> player_shield (player ?g') \<and> lives ?g' = lives g \<and> state ?g' = state g
      \<and> particles ?g' = particles g @ [next_ref g ..< next_ref g + 30]"
    by (simp add: append_particles_list)
  show ?thesis
    using eq respawned new rest by blast
qed

theorem obstacle_hit_shielded_witness:
  "player_shield (player (example_game\<lparr>player := Player_init\<lparr>player_shield := True\<rparr>\<rparr>))
   \<and> (\<exists>g'. handle_obstacle_collision 0 (example_game\<lparr>player := Player_init\<lparr>player_shield := True\<rparr>\<rparr>) = Inr g'
         \<and> \<not> player_shield (player g') \<and> lives g' = 1
         \<and> obstacle_y (obstacle_at g' 0) = - 20
         \<and> 100 \<le> obstacle_width (obstacle_at g' 0) \<and> obstacle_width (obstacle_at g' 0) \<le> 200
         \<and> 5 < obstacle_speed (obstacle_at g' 0)
         \<and> obstacle_at g' 1 = example_Obstacle
         \<and> particles g' = [6] @ [7 ..< 37]
         \<and> particle_color (particle_at g' 7) = CYAN)"
proof -
  let ?g = "example_game\<lparr>player := Player_init\<lparr>player_shield := True\<rparr>\<rparr>"
  have h: "player_shield (player ?g)" by simp
  have e: "obstacle_at ?g = (\<lambda>_. example_Obstacle)" "lives ?g = 1" "particles ?g = [6]"
    "next_ref ?g = 7"
    by (simp_all add: example_game_def)
  have o: "obstacle_height example_Obstacle = 20" "obstacle_speed example_Obstacle = 5"
    by (simp_all add: example_Obstacle_def)
  from obstacle_hit_shielded [OF h, of 0] obtain g' where
    g': "handle_obstacle_collision 0 ?g = Inr g'" "\<not> player_shield (player g')"
      "lives g' = lives ?g"
      "obstacle_y (obstacle_at g' 0) = - of_int (obstacle_height (obstacle_at g' 0))"
      "obstacle_height (obstacle_at g' 0) = obstacle_height (obstacle_at ?g 0)"
      "100 \<le> obstacle_width (obstacle_at g' 0)" "obstacle_width (obstacle_at g' 0) \<le> 200"
      "obstacle_speed (obstacle_at ?g 0) < obstacle_speed (obstacle_at g' 0)"
      "\<forall>b. b \<noteq> 0 \<longrightarrow> obstacle_at g' b = obstacle_at ?g b"
      "particles g' = particles ?g @ [next_ref ?g ..< next_ref ?g + 30]"
      "\<forall>b \<in> set [next_ref ?g ..< next_ref ?g + 30]. particle_color (particle_at g' b) = CYAN"
    by blast
  have "obstacle_at g' 1 = example_Obstacle" using g'(9) e(1) by simp
  moreover have "particle_color (particle_at g' 7) = CYAN" using g'(11) e(4) by simp
  ultimately show ?thesis
    using h g' e o by (intro conjI exI [of _ g']) simp_all
qed

subsection \<open>Power-up collection\<close>

text \<open>
  Claim C10. Collecting a power-up of type \<open>extra_life\<close> that is in the active collection
  returns with \<open>lives\<close> incremented by exactly 1, whatever its value, leaves \<open>score\<close>,
  \<open>level\<close> and the player (its shield and speed-boost flags included) unchanged, and
  removes that power-up from the active collection.
\<close>

theorem extra_life_collection:
  assumes "powerup_type (powerup_at g a) = extra_life" and "a \<in> set (power_ups g)"
  shows "\<exists>g'. handle_powerup_collection a g = Inr g'
    \<and> lives g' = lives g + 1
    \<and> score g' = score g
    \<and> level g' = level g
    \<and> player g' = player g
    \<and> power_ups g' = remove1 a (power_ups g)
    \<and> (distinct (power_ups g) \<longrightarrow> a \<notin> set (power_ups g'))"
  using assms by (simp add: handle_powerup_collection_def list_remove_def Let_def)

theorem extra_life_collection_witness:
  "powerup_type (powerup_at example_game 5) = extra_life \<and> 5 \<in> set (power_ups example_game)
   \<and> (\<exists>g'. handle_powerup_collection 5 example_game = Inr g'
         \<and> lives g' = 2 \<and> score g' = 9 \<and> level g' = 1 \<and> player g' = Player_init
         \<and> power_ups g' = [])"
  using extra_life_collection [of example_game 5]
  by (auto simp: example_defs)

subsection \<open>Score and level\<close>

lemma handle_coin_collection_inv:
  assumes "level_inv g"
  shows "level_inv (handle_coin_collection a g)"
proof -
  let ?c = "coin_at g a"
  let ?g2 = "g\<lparr>coin_at := (coin_at g)(a := ?c\<lparr>coin_collected := True\<rparr>),
               score := score g + coin_value ?c\<rparr>"
  let ?g3 = "append_particles 20 (of_int (coin_x ?c)) (coin_y ?c) (coin_color ?c) ?g2"
  let ?g4 = "respawn_coin a ?g3"
  have v: "coin_value ?c = 1 \<or> coin_value ?c = 5"
    using assms by (simp add: level_inv_def coin_values_ok_def)
  have lv: "level g = 1 + score g div 10"
    using assms by (simp add: level_inv_def)
  have "coin_values_ok ?g2"
    using assms by (simp add: level_inv_def coin_values_ok_def)
  then have "coin_values_ok ?g3" by (simp add: coin_values_ok_def)
  then have ok4: "coin_values_ok ?g4" by (rule respawn_coin_values)
  have s4: "score ?g4 = score g + coin_value ?c" and l4: "level ?g4 = level g"
    by simp_all
  have eq: "handle_coin_collection a g
            = (if score ?g4 div 10 > level ?g4 - 1 then level_up ?g4 else ?g4)"
    by (simp add: handle_coin_collection_def Let_def)
  show ?thesis
  proof (cases "score ?g4 div 10 > level ?g4 - 1")
    case True
    have "coin_values_ok (level_up ?g4)"
      unfolding level_up_def using ok4
      by (intro reset_game_objects_values) (simp add: coin_values_ok_def)
    moreover have "level (level_up ?g4) = 1 + score (level_up ?g4) div 10"
      using True v lv s4 l4 by (auto simp: level_up_def)
    ultimately show ?thesis using True eq by (simp add: level_inv_def)
  next
    case False
    have "level ?g4 = 1 + score ?g4 div 10"
      using False v lv s4 l4 by auto
    then show ?thesis using False eq ok4 by (simp add: level_inv_def)
  qed
qed

lemma collect_coins_inv: "level_inv g \<Longrightarrow> level_inv (collect_coins as g)"
  by (induction as arbitrary: g) (simp_all add: handle_coin_collection_inv)

text \<open>
  Claim C1. Starting from \<open>score = 0\<close> and \<open>level = 1\<close>, with every coin worth 1 or 5, for
  every sequence of coin collections processed one at a time the equation
  \<open>level = 1 + score div 10\<close> holds after each collection of the sequence.
\<close>

theorem level_tracks_score:
  assumes "score g = 0" and "level g = 1"
    and "\<forall>a. coin_value (coin_at g a) = 1 \<or> coin_value (coin_at g a) = 5"
  shows "\<forall>n \<le> length as.
           level (collect_coins (take n as) g) = 1 + score (collect_coins (take n as) g) div 10"
proof -
  have "level_inv g" using assms by (simp add: level_inv_def coin_values_ok_def)
  then have "level_inv (collect_coins (take n as) g)" for n
    by (rule collect_coins_inv)
  then show ?thesis by (simp add: level_inv_def)
qed

theorem level_tracks_score_witness:
  "score (example_game\<lparr>score := 0\<rparr>) = 0 \<and> level (example_game\<lparr>score := 0\<rparr>) = 1
   \<and> coin_value (coin_at (example_game\<lparr>score := 0\<rparr>) 3) = 1
   \<and> level (collect_coins [3, 4, 3] (example_game\<lparr>score := 0\<rparr>))
       = 1 + score (collect_coins [3, 4, 3] (example_game\<lparr>score := 0\<rparr>)) div 10"
proof -
  have "\<forall>n \<le> length [3, 4, 3 :: nat].
          level (collect_coins (take n [3, 4, 3]) (example_game\<lparr>score := 0\<rparr>))
            = 1 + score (collect_coins (take n [3, 4, 3]) (example_game\<lparr>score := 0\<rparr>)) div 10"
    by (rule level_tracks_score) (simp_all add: example_defs)
  from this [rule_format, of 3] show ?thesis
    by (simp add: example_defs)
qed

subsection \<open>High-score persistence\<close>

lemma digit_char_props:
  "d < 10 \<Longrightarrow> is_digit (digit_char d)"
  "d < 10 \<Longrightarrow> digit_val (digit_char d) = d"
  "d < 10 \<Longrightarrow> \<not> is_space (digit_char d)"
  "d < 10 \<Longrightarrow> digit_char d < 128"
  by (auto simp: is_digit_def digit_val_def is_space_def digit_char_def)

lemma sign_not_digit:
  "\<not> is_digit 45" "\<not> is_digit 43" "\<not> is_space 45"
  by (simp_all add: is_digit_def is_space_def)

lemma digits_nonempty: "digits n \<noteq> []"
  by (subst digits.simps) simp

lemma digits_all_digit:
  "c \<in> set (digits n) \<Longrightarrow> is_digit c \<and> \<not> is_space c \<and> c < 128"
proof (induction n rule: digits.induct)
  case (1 n)
  show ?case
  proof (cases "n < 10")
    case True
    then show ?thesis using "1.prems"
      by (subst (asm) digits.simps) (simp add: digit_char_props)
  next
    case False
    have "c \<in> set (digits (n div 10)) \<or> c = digit_char (n mod 10)"
      using "1.prems" False by (subst (asm) digits.simps) auto
    then show ?thesis
      using "1.IH" False by (auto simp: digit_char_props)
  qed
qed

lemma filter_digits: "filter is_digit (digits n) = digits n"
  by (rule filter_True) (simp add: digits_all_digit)

lemma digits_value_append_digit:
  "\<forall>c \<in> set ds. is_digit c \<Longrightarrow> d < 10 \<Longrightarrow>
     digits_value acc (ds @ [digit_char d]) = map_option (\<lambda>v. 10 * v + d) (digits_value acc ds)"
  by (induction ds arbitrary: acc) (simp_all add: digit_char_props)

lemma digits_value_digits: "digits_value 0 (digits n) = Some n"
proof (induction n rule: digits.induct)
  case (1 n)
  show ?case
  proof (cases "n < 10")
    case True
    then show ?thesis by (subst digits.simps) (simp add: digit_char_props)
  next
    case False
    have "digits_value 0 (digits (n div 10) @ [digit_char (n mod 10)])
          = map_option (\<lambda>v. 10 * v + n mod 10) (digits_value 0 (digits (n div 10)))"
      by (rule digits_value_append_digit) (simp_all add: digits_all_digit)
    then show ?thesis
      using False "1.IH" by (subst digits.simps) simp
  qed
qed

lemma starts_with_digit_digits: "starts_with_digit (digits n)"
proof (cases "digits n")
  case Nil
  then show ?thesis using digits_nonempty by simp
next
  case (Cons c cs)
  then have "c \<in> set (digits n)" by simp
  then show ?thesis using Cons digits_all_digit [of c n] by (simp add: starts_with_digit_def)
qed

lemma int_unsigned_digits:
  "length (digits n) \<le> max_str_digits \<Longrightarrow> int_unsigned (digits n) = Inr (int n)"
  by (simp add: int_unsigned_def starts_with_digit_digits digits_value_digits filter_digits)

lemma strip_no_space: "\<forall>c \<in> set s. \<not> is_space c \<Longrightarrow> strip s = s"
proof -
  assume a: "\<forall>c \<in> set s. \<not> is_space c"
  have d: "dropWhile is_space t = t" if "\<forall>c \<in> set t. \<not> is_space c" for t
    using that by (cases t) simp_all
  show ?thesis using a by (simp add: strip_def d)
qed

lemma py_int_py_str:
  assumes "py_str n = Inr s"
  shows "py_int db s = Inr n"
proof -
  let ?ds = "digits (nat \<bar>n\<bar>)"
  have len: "length ?ds \<le> max_str_digits"
    and s: "s = (if n < 0 then 45 # ?ds else ?ds)"
    using assms by (auto simp: py_str_def split: if_splits)
  have chars: "\<forall>c \<in> set s. \<not> is_space c \<and> c < 128"
    using digits_all_digit [of _ "nat \<bar>n\<bar>"] sign_not_digit(3) by (auto simp: s)
  then have asc: "to_ascii db s = s" by (simp add: to_ascii_def)
  have st: "strip s = s" using chars by (simp add: strip_no_space)
  have iu: "int_unsigned ?ds = Inr (int (nat \<bar>n\<bar>))"
    using len by (rule int_unsigned_digits)
  have p: "py_int db s =
      (case s of
        [] \<Rightarrow> Inl ValueError
      | c # cs \<Rightarrow>
          if c = 45 then (case int_unsigned cs of Inl e \<Rightarrow> Inl e | Inr n \<Rightarrow> Inr (- n))
          else if c = 43 then int_unsigned cs
          else int_unsigned (c # cs))"
    by (simp only: py_int_def asc st)
  show ?thesis
  proof (cases "n < 0")
    case True
    then have "s = 45 # ?ds" by (simp add: s)
    then show ?thesis unfolding p using True iu by simp
  next
    case False
    obtain c cs where ds: "?ds = c # cs"
      using digits_nonempty [of "nat \<bar>n\<bar>"] by (cases ?ds) auto
    then have "c \<in> set ?ds" by simp
    then have "is_digit c" using digits_all_digit by blast
    then have c: "c \<noteq> 45" "c \<noteq> 43" using sign_not_digit by auto
    have "s = c # cs" using False ds by (simp add: s)
    moreover have "int_unsigned (c # cs) = Inr n" using iu ds False by simp
    ultimately show ?thesis unfolding p using c by simp
  qed
qed

lemma dropWhile_keeps: "c \<in> set s \<Longrightarrow> \<not> P c \<Longrightarrow> c \<in> set (dropWhile P s)"
  by (induction s) auto

lemma strip_keeps: "c \<in> set s \<Longrightarrow> \<not> is_space c \<Longrightarrow> c \<in> set (strip s)"
  by (simp add: strip_def dropWhile_keeps)

lemma digits_value_bad:
  "c \<in> set s \<Longrightarrow> \<not> is_digit c \<Longrightarrow> c \<noteq> 95 \<Longrightarrow> digits_value acc s = None"
  by (induction s arbitrary: acc) auto

lemma int_unsigned_bad:
  "c \<in> set s \<Longrightarrow> \<not> is_digit c \<Longrightarrow> c \<noteq> 95 \<Longrightarrow> int_unsigned s = Inl ValueError"
  by (simp add: int_unsigned_def digits_value_bad)

lemma strip_bad:
  assumes "c \<in> set t" and "bad_char c"
  shows "(case strip t of
        [] \<Rightarrow> Inl ValueError
      | c # cs \<Rightarrow>
          if c = 45 then (case int_unsigned cs of Inl e \<Rightarrow> Inl e | Inr n \<Rightarrow> Inr (- n))
          else if c = 43 then int_unsigned cs
          else int_unsigned (c # cs)) = Inl ValueError"
proof (cases "strip t")
  case Nil
  then show ?thesis by simp
next
  case (Cons x xs)
  have b: "\<not> is_digit c" "\<not> is_space c" "c \<noteq> 95" "c \<noteq> 43" "c \<noteq> 45"
    using assms(2) by (simp_all add: bad_char_def)
  have in_strip: "c \<in> set (x # xs)"
    using strip_keeps [OF assms(1) b(2)] Cons by simp
  show ?thesis
  proof (cases "x = 45 \<or> x = 43")
    case True
    then have "c \<in> set xs" using in_strip b by auto
    then have "int_unsigned xs = Inl ValueError"
      using b(1,3) by (rule int_unsigned_bad)
    then show ?thesis using True Cons by auto
  next
    case False
    have "int_unsigned (x # xs) = Inl ValueError"
      using in_strip b(1,3) by (rule int_unsigned_bad)
    then show ?thesis using False Cons by simp
  qed
qed

lemma transform_bad:
  "c \<in> set s \<Longrightarrow> c < 127 \<Longrightarrow> c \<in> set (transform db s) \<or> 63 \<in> set (transform db s)"
  by (induction s) (auto split: option.splits)

lemma py_int_bad:
  assumes "c \<in> set s" and "c < 127" and "bad_char c"
  shows "py_int db s = Inl ValueError"
proof -
  have q: "bad_char 63" by (simp add: bad_char_def is_digit_def is_space_def)
  have "c \<in> set (to_ascii db s) \<or> 63 \<in> set (to_ascii db s)"
    using transform_bad [OF assms(1,2), of db] assms(1) by (auto simp: to_ascii_def)
  then show ?thesis
    unfolding py_int_def using strip_bad assms(3) q by blast
qed

lemma py_int_error: "py_int db s = Inl e \<Longrightarrow> e = ValueError"
  by (auto simp: py_int_def int_unsigned_def split: list.splits if_splits sum.splits option.splits)

lemma py_str_Inr:
  "(\<exists>s. py_str n = Inr s) \<longleftrightarrow> length (digits (nat \<bar>n\<bar>)) \<le> max_str_digits"
  by (auto simp: py_str_def)

lemma save_high_score_Inr:
  "save_high_score g = Inr g' \<longleftrightarrow>
     writable (files g)
     \<and> (\<exists>s. py_str (high_score g) = Inr s
              \<and> g' = g\<lparr>files := (files g)\<lparr>highscore_txt := Text s\<rparr>\<rparr>)"
  by (auto simp: save_high_score_def open_write_def file_write_def split: sum.splits)

lemma load_high_score_Text:
  "highscore_txt fs = Text s \<Longrightarrow> readable fs \<Longrightarrow>
     load_high_score db fs = (case py_int db s of Inl e \<Rightarrow> Inr 0 | Inr n \<Rightarrow> Inr n)"
  using py_int_error [of db s]
  by (cases "py_int db s") (auto simp: load_high_score_def open_read_def caught_def)

text \<open>
  Claim C7, as amended. For every non-negative \<open>N\<close>, the save of \<open>N\<close> succeeds exactly when
  the file can be written and \<open>N\<close> has no more digits than a conversion allows; loading
  right after a save that succeeded, from a file that can be read, returns \<open>N\<close>. Loading
  when the file does not exist returns 0, and so does loading bytes that are not UTF-8.
  Loading a text returns the integer that \<open>int()\<close> reads from it, and 0 when \<open>int()\<close>
  rejects it, as it does every text with an ASCII character other than a digit, a sign,
  an underscore or whitespace. A file that exists and cannot be opened for reading makes
  the load raise.
\<close>

theorem high_score_persistence:
  "(0 \<le> high_score g \<and> readable (files g) \<longrightarrow>
      (\<forall>g'. save_high_score g = Inr g' \<longrightarrow> load_high_score db (files g') = Inr (high_score g)))
   \<and> ((\<exists>g'. save_high_score g = Inr g')
        \<longleftrightarrow> writable (files g) \<and> length (digits (nat \<bar>high_score g\<bar>)) \<le> max_str_digits)
   \<and> (highscore_txt fs = Missing \<longrightarrow> load_high_score db fs = Inr 0)
   \<and> (highscore_txt fs = Undecodable \<and> readable fs \<longrightarrow> load_high_score db fs = Inr 0)
   \<and> (highscore_txt fs = Text s \<and> readable fs \<longrightarrow>
        load_high_score db fs = (case py_int db s of Inl e \<Rightarrow> Inr 0 | Inr n \<Rightarrow> Inr n))
   \<and> (highscore_txt fs = Text s \<and> readable fs \<and> (\<exists>c \<in> set s. c < 127 \<and> bad_char c) \<longrightarrow>
        load_high_score db fs = Inr 0)
   \<and> (highscore_txt fs \<noteq> Missing \<and> \<not> readable fs \<longrightarrow> load_high_score db fs = Inl OSError)"
proof -
  have a: "0 \<le> high_score g \<and> readable (files g) \<longrightarrow>
      (\<forall>g'. save_high_score g = Inr g' \<longrightarrow> load_high_score db (files g') = Inr (high_score g))"
  proof (intro impI allI)
    fix g' assume r: "0 \<le> high_score g \<and> readable (files g)" and sv: "save_high_score g = Inr g'"
    then obtain t where t: "py_str (high_score g) = Inr t"
      and g': "g' = g\<lparr>files := (files g)\<lparr>highscore_txt := Text t\<rparr>\<rparr>"
      by (auto simp: save_high_score_Inr)
    have "py_int db t = Inr (high_score g)" using t by (rule py_int_py_str)
    then show "load_high_score db (files g') = Inr (high_score g)"
      using r by (simp add: g' load_high_score_Text)
  qed
  have b: "(\<exists>g'. save_high_score g = Inr g')
        \<longleftrightarrow> writable (files g) \<and> length (digits (nat \<bar>high_score g\<bar>)) \<le> max_str_digits"
    using py_str_Inr [of "high_score g"] by (auto simp: save_high_score_Inr)
  have c: "highscore_txt fs = Missing \<longrightarrow> load_high_score db fs = Inr 0"
    by (simp add: load_high_score_def open_read_def caught_def)
  have d: "highscore_txt fs = Undecodable \<and> readable fs \<longrightarrow> load_high_score db fs = Inr 0"
    by (simp add: load_high_score_def open_read_def caught_def)
  have e: "highscore_txt fs = Text s \<and> readable fs \<longrightarrow>
        load_high_score db fs = (case py_int db s of Inl e \<Rightarrow> Inr 0 | Inr n \<Rightarrow> Inr n)"
    by (simp add: load_high_score_Text)
  have f: "highscore_txt fs = Text s \<and> readable fs \<and> (\<exists>c \<in> set s. c < 127 \<and> bad_char c) \<longrightarrow>
        load_high_score db fs = Inr 0"
    using py_int_bad [of _ s db] by (auto simp: load_high_score_Text)
  have h: "highscore_txt fs \<noteq> Missing \<and> \<not> readable fs \<longrightarrow> load_high_score db fs = Inl OSError"
    by (cases "highscore_txt fs") (simp_all add: load_high_score_def open_read_def caught_def)
  show ?thesis using a b c d e f h by blast
qed

lemma py_str_50: "py_str 50 = Inr [53, 48]"
  by (simp add: py_str_def max_str_digits_def digits.simps [of 50] digits.simps [of 5]
        digit_char_def)

lemma py_int_abc: "bad_char 97" "ascii ''abc'' = [97, 98, 99]"
  by (simp_all add: bad_char_def is_digit_def is_space_def ascii_def)

theorem high_score_persistence_witness:
  "0 \<le> high_score (example_game\<lparr>high_score := 50\<rparr>)
   \<and> readable (files (example_game\<lparr>high_score := 50\<rparr>))
   \<and> writable (files (example_game\<lparr>high_score := 50\<rparr>))
   \<and> save_high_score (example_game\<lparr>high_score := 50\<rparr>)
       = Inr (example_game\<lparr>high_score := 50,
                files := \<lparr>highscore_txt = Text [53, 48], readable = True, writable = True\<rparr>\<rparr>)
   \<and> load_high_score unicode_14 \<lparr>highscore_txt = Text [53, 48], readable = True, writable = True\<rparr>
       = Inr 50
   \<and> load_high_score unicode_14 \<lparr>highscore_txt = Missing, readable = True, writable = True\<rparr> = Inr 0
   \<and> load_high_score unicode_14 \<lparr>highscore_txt = Undecodable, readable = True, writable = True\<rparr>
       = Inr 0
   \<and> load_high_score unicode_14
        \<lparr>highscore_txt = Text (ascii ''abc''), readable = True, writable = True\<rparr> = Inr 0
   \<and> load_high_score unicode_14
        \<lparr>highscore_txt = Text [53, 48], readable = False, writable = True\<rparr> = Inl OSError"
proof -
  let ?g = "example_game\<lparr>high_score := 50\<rparr>"
  let ?fs = "\<lparr>highscore_txt = Text [53, 48], readable = True, writable = True\<rparr>"
  have g: "0 \<le> high_score ?g" "readable (files ?g)" "writable (files ?g)"
    by (simp_all add: example_defs)
  have s: "save_high_score ?g = Inr (?g\<lparr>files := ?fs\<rparr>)"
    by (simp add: save_high_score_def open_write_def file_write_def py_str_50 example_defs)
  have l: "load_high_score unicode_14 ?fs = Inr 50"
    using high_score_persistence [of ?g unicode_14] g s by simp
  have m: "load_high_score unicode_14 \<lparr>highscore_txt = Missing, readable = True, writable = True\<rparr> = Inr 0"
    using high_score_persistence
      [of ?g unicode_14 "\<lparr>highscore_txt = Missing, readable = True, writable = True\<rparr>"]
    by simp
  have u: "load_high_score unicode_14 \<lparr>highscore_txt = Undecodable, readable = True, writable = True\<rparr> = Inr 0"
    using high_score_persistence
      [of ?g unicode_14 "\<lparr>highscore_txt = Undecodable, readable = True, writable = True\<rparr>"]
    by simp
  have t: "load_high_score unicode_14
        \<lparr>highscore_txt = Text (ascii ''abc''), readable = True, writable = True\<rparr> = Inr 0"
  proof -
    let ?fs = "\<lparr>highscore_txt = Text (ascii ''abc''), readable = True, writable = True\<rparr>"
    have "highscore_txt ?fs = Text (ascii ''abc'') \<and> readable ?fs
          \<and> (\<exists>c \<in> set (ascii ''abc''). c < 127 \<and> bad_char c)"
      by (simp add: py_int_abc)
    with high_score_persistence [of ?g unicode_14 ?fs "ascii ''abc''"]
    show ?thesis by blast
  qed
  have r: "load_high_score unicode_14
        \<lparr>highscore_txt = Text [53, 48], readable = False, writable = True\<rparr> = Inl OSError"
    using high_score_persistence
      [of ?g unicode_14 "\<lparr>highscore_txt = Text [53, 48], readable = False, writable = True\<rparr>"]
    by simp
  show ?thesis using g s l m u t r by simp
qed

text \<open>
  Claim C7 as stated fails: the texts \<open>4_2\<close> and \<open> 42\<close> are not the decimal string of an
  integer, and the load returns 42 for both, not 0; so it does for \<open>42\<close> after a no-break
  space.
\<close>

theorem load_reads_grouped_digits:
  "load_high_score unicode_14
     \<lparr>highscore_txt = Text (ascii ''4_2''), readable = True, writable = True\<rparr> = Inr 42
   \<and> load_high_score unicode_14
       \<lparr>highscore_txt = Text (ascii '' 42''), readable = True, writable = True\<rparr> = Inr 42
   \<and> load_high_score unicode_14
       \<lparr>highscore_txt = Text (160 # ascii ''42''), readable = True, writable = True\<rparr> = Inr 42"
  by (simp add: load_high_score_def open_read_def py_int_def to_ascii_def ascii_def strip_def
        is_space_def int_unsigned_def starts_with_digit_def is_digit_def digit_val_def
        max_str_digits_def unicode_14_def)

text \<open>
  Claim C8, as amended. If the score is a new record and the high-score file cannot be
  written at game-over, the mode has already been set to \<open>GAME_OVER\<close> and the in-memory
  high score updated when the write is attempted, and they stay so; the write error is not
  caught: \<open>game_over\<close> raises \<open>OSError\<close>, and so does the obstacle collision that took the
  last life.
\<close>

theorem game_over_write_failure:
  assumes "\<not> writable (files g)" and "high_score g < score g"
  shows "game_over g = Inl (OSError, g\<lparr>state := GAME_OVER, high_score := score g\<rparr>)
    \<and> (\<not> player_shield (player g) \<and> lives g \<le> 1 \<longrightarrow>
          (\<exists>g'. handle_obstacle_collision a g = Inl (OSError, g')
                \<and> state g' = GAME_OVER \<and> lives g' = lives g - 1
                \<and> high_score g' = score g \<and> files g' = files g))"
proof -
  have a: "game_over h = Inl (OSError, h\<lparr>state := GAME_OVER, high_score := score h\<rparr>)"
    if "\<not> writable (files h)" and "high_score h < score h" for h
    using that by (simp add: game_over_def save_high_score_def open_write_def Let_def)
  let ?g2 = "respawn_obstacle a (g\<lparr>lives := lives g - 1\<rparr>)"
  have "game_over ?g2 = Inl (OSError, ?g2\<lparr>state := GAME_OVER, high_score := score ?g2\<rparr>)"
    using assms by (intro a) simp_all
  moreover have "handle_obstacle_collision a g = game_over ?g2"
    if "\<not> player_shield (player g)" and "lives g \<le> 1"
    using that by (simp add: handle_obstacle_collision_def Let_def)
  ultimately show ?thesis
    using a [OF assms] by simp
qed

theorem game_over_write_failure_witness:
  "\<not> writable (files (example_game\<lparr>score := 50, files := read_only_files\<rparr>))
   \<and> high_score (example_game\<lparr>score := 50, files := read_only_files\<rparr>) < 50
   \<and> \<not> player_shield (player (example_game\<lparr>score := 50, files := read_only_files\<rparr>))
   \<and> lives (example_game\<lparr>score := 50, files := read_only_files\<rparr>) \<le> 1
   \<and> (\<exists>g'. handle_obstacle_collision 0
               (example_game\<lparr>score := 50, files := read_only_files\<rparr>)
             = Inl (OSError, g')
           \<and> state g' = GAME_OVER \<and> lives g' = 0 \<and> high_score g' = 50)"
proof -
  let ?g = "example_game\<lparr>score := 50, files := read_only_files\<rparr>"
  have h: "\<not> writable (files ?g)" "high_score ?g < score ?g"
    and c: "\<not> player_shield (player ?g)" "lives ?g \<le> 1" "lives ?g = 1" "score ?g = 50"
    by (simp_all add: example_defs)
  from game_over_write_failure [OF h, of 0] c
  have "\<exists>g'. handle_obstacle_collision 0 ?g = Inl (OSError, g')
          \<and> state g' = GAME_OVER \<and> lives g' = lives ?g - 1
          \<and> high_score g' = score ?g \<and> files g' = files ?g"
    by blast
  then have "\<exists>g'. handle_obstacle_collision 0 ?g = Inl (OSError, g')
          \<and> state g' = GAME_OVER \<and> lives g' = 0 \<and> high_score g' = 50"
    unfolding c(3,4) by auto
  with h c show ?thesis by simp
qed

text \<open>
  Claim C8 as stated fails: at a record score of 50, no life left and the file not
  writable, the error leaves \<open>game_over\<close>.
\<close>

theorem write_failure_propagates:
  "game_over (example_game\<lparr>score := 50, lives := 0, files := read_only_files\<rparr>)
   = Inl (OSError, example_game\<lparr>score := 50, lives := 0,
                                files := read_only_files,
                                state := GAME_OVER, high_score := 50\<rparr>)"
  by (simp add: game_over_def save_high_score_def open_write_def Let_def example_defs)

subsection \<open>Removals from the active collections\<close>

lemma keeps_same:
  assumes "store_ok g"
    and "power_ups g' = power_ups g" and "particles g' = particles g"
    and "powerup_at g' = powerup_at g" and "particle_at g' = particle_at g"
    and "next_ref g' = next_ref g" and "level g' = level g"
  shows "keeps g g'"
  using assms by (simp add: keeps_def store_ok_def)

lemma keeps_refl: "store_ok g \<Longrightarrow> keeps g g"
  by (rule keeps_same) simp_all

lemma keeps_store_ok: "keeps g g' \<Longrightarrow> store_ok g'"
  by (simp add: keeps_def)

lemma keeps_trans:
  assumes ok: "store_ok g" and a: "keeps g g1" and b: "keeps g1 g2"
  shows "keeps g g2"
proof -
  have n: "next_ref g \<le> next_ref g1" "next_ref g1 \<le> next_ref g2"
    and l: "level g \<le> level g1" "level g1 \<le> level g2"
    using a b by (simp_all add: keeps_def)
  have pu_new: "\<forall>x \<in> set (power_ups g1). x \<in> set (power_ups g) \<or> next_ref g \<le> x"
    and pt_new: "\<forall>x \<in> set (particles g1). x \<in> set (particles g) \<or> next_ref g \<le> x"
    and pu_new2: "\<forall>x \<in> set (power_ups g2). x \<in> set (power_ups g1) \<or> next_ref g1 \<le> x"
    and pt_new2: "\<forall>x \<in> set (particles g2). x \<in> set (particles g1) \<or> next_ref g1 \<le> x"
    using a b by (simp_all add: keeps_def)
  have pu_fr: "\<And>x. x < next_ref g \<Longrightarrow> x \<notin> set (power_ups g) \<Longrightarrow> powerup_at g1 x = powerup_at g x"
    and pt_fr: "\<And>x. x < next_ref g \<Longrightarrow> x \<notin> set (particles g) \<Longrightarrow> particle_at g1 x = particle_at g x"
    using a by (simp_all add: keeps_def)
  have pu_fr2: "\<And>x. x < next_ref g1 \<Longrightarrow> x \<notin> set (power_ups g1) \<Longrightarrow> powerup_at g2 x = powerup_at g1 x"
    and pt_fr2: "\<And>x. x < next_ref g1 \<Longrightarrow> x \<notin> set (particles g1) \<Longrightarrow> particle_at g2 x = particle_at g1 x"
    using b by (simp_all add: keeps_def)
  have lt: "\<And>x. x \<in> set (power_ups g) \<Longrightarrow> x < next_ref g"
    "\<And>x. x \<in> set (particles g) \<Longrightarrow> x < next_ref g"
    using ok by (simp_all add: store_ok_def)
  have c1: "next_ref g \<le> next_ref g2" "level g \<le> level g2" using n l by simp_all
  have c3: "\<forall>x \<in> set (power_ups g).
               x \<in> set (power_ups g2) \<or> PowerUp_is_off_screen (powerup_at g2 x)
               \<or> powerup_collected (powerup_at g2 x)"
    and c4: "\<forall>x \<in> set (particles g).
               x \<in> set (particles g2) \<or> Particle_is_dead (particle_at g2 x)"
    if eq: "level g2 = level g"
  proof -
    have e1: "level g1 = level g" and e2: "level g2 = level g1" using eq l by simp_all
    have a3: "\<forall>x \<in> set (power_ups g).
               x \<in> set (power_ups g1) \<or> PowerUp_is_off_screen (powerup_at g1 x)
               \<or> powerup_collected (powerup_at g1 x)"
      and a4: "\<forall>x \<in> set (particles g).
               x \<in> set (particles g1) \<or> Particle_is_dead (particle_at g1 x)"
      using a e1 by (simp_all add: keeps_def)
    have b3: "\<forall>x \<in> set (power_ups g1).
               x \<in> set (power_ups g2) \<or> PowerUp_is_off_screen (powerup_at g2 x)
               \<or> powerup_collected (powerup_at g2 x)"
      and b4: "\<forall>x \<in> set (particles g1).
               x \<in> set (particles g2) \<or> Particle_is_dead (particle_at g2 x)"
      using b e2 by (simp_all add: keeps_def)
    show "\<forall>x \<in> set (power_ups g).
               x \<in> set (power_ups g2) \<or> PowerUp_is_off_screen (powerup_at g2 x)
               \<or> powerup_collected (powerup_at g2 x)"
    proof
      fix x assume x: "x \<in> set (power_ups g)"
      show "x \<in> set (power_ups g2) \<or> PowerUp_is_off_screen (powerup_at g2 x)
               \<or> powerup_collected (powerup_at g2 x)"
      proof (cases "x \<in> set (power_ups g1)")
        case True
        then show ?thesis using b3 by blast
      next
        case False
        have "x < next_ref g1" using lt(1) [OF x] n by simp
        then have "powerup_at g2 x = powerup_at g1 x" using False by (rule pu_fr2)
        then show ?thesis using a3 x False by auto
      qed
    qed
    show "\<forall>x \<in> set (particles g).
               x \<in> set (particles g2) \<or> Particle_is_dead (particle_at g2 x)"
    proof
      fix x assume x: "x \<in> set (particles g)"
      show "x \<in> set (particles g2) \<or> Particle_is_dead (particle_at g2 x)"
      proof (cases "x \<in> set (particles g1)")
        case True
        then show ?thesis using b4 by blast
      next
        case False
        have "x < next_ref g1" using lt(2) [OF x] n by simp
        then have "particle_at g2 x = particle_at g1 x" using False by (rule pt_fr2)
        then show ?thesis using a4 x False by auto
      qed
    qed
  qed
  have c5: "\<forall>x \<in> set (power_ups g2). x \<in> set (power_ups g) \<or> next_ref g \<le> x"
    using pu_new pu_new2 n by (meson le_trans)
  have c6: "\<forall>x \<in> set (particles g2). x \<in> set (particles g) \<or> next_ref g \<le> x"
    using pt_new pt_new2 n by (meson le_trans)
  have c7: "\<forall>x. x < next_ref g \<longrightarrow> x \<notin> set (power_ups g) \<longrightarrow> powerup_at g2 x = powerup_at g x"
  proof (intro allI impI)
    fix x assume x: "x < next_ref g" "x \<notin> set (power_ups g)"
    then have "x \<notin> set (power_ups g1)" using pu_new by auto
    moreover have "x < next_ref g1" using x n by simp
    ultimately have "powerup_at g2 x = powerup_at g1 x" using pu_fr2 by simp
    then show "powerup_at g2 x = powerup_at g x" using pu_fr x by simp
  qed
  have c8: "\<forall>x. x < next_ref g \<longrightarrow> x \<notin> set (particles g) \<longrightarrow> particle_at g2 x = particle_at g x"
  proof (intro allI impI)
    fix x assume x: "x < next_ref g" "x \<notin> set (particles g)"
    then have "x \<notin> set (particles g1)" using pt_new by auto
    moreover have "x < next_ref g1" using x n by simp
    ultimately have "particle_at g2 x = particle_at g1 x" using pt_fr2 by simp
    then show "particle_at g2 x = particle_at g x" using pt_fr x by simp
  qed
  have c9: "store_ok g2" using b by (simp add: keeps_def)
  show ?thesis
    unfolding keeps_def using c1 c3 c4 c5 c6 c7 c8 c9 by blast
qed

lemma random_randint_lower: "a \<le> b + 1 \<Longrightarrow> a \<le> fst (random_randint a b r)"
proof -
  assume "a \<le> b + 1"
  then have "0 \<le> frac (draws r (pos r)) * of_int (b - a + 1)"
    by (intro mult_nonneg_nonneg) simp_all
  then show ?thesis
    by (simp add: random_randint_def random_random_def)
qed

lemma Particle_init_alive: "\<not> Particle_is_dead (fst (Particle_init x y c r))"
proof -
  have "20 \<le> fst (random_randint 20 40 r')" for r'
    by (rule random_randint_lower) simp
  then have "20 \<le> particle_lifetime (fst (Particle_init x y c r))"
    by (simp add: Particle_init_def split_beta)
  then show ?thesis
    by (simp add: Particle_is_dead_def)
qed

lemma PowerUp_init_fresh:
  "\<not> powerup_collected (fst (PowerUp_init r))"
  "\<not> PowerUp_is_off_screen (fst (PowerUp_init r))"
  by (simp_all add: PowerUp_init_def PowerUp_reset_position_def PowerUp_set_color_def
        PowerUp_is_off_screen_def SCREEN_HEIGHT_def split_beta)

lemma respawn_coin_frame2 [simp]:
  "powerup_at (respawn_coin a g) = powerup_at g"
  "particle_at (respawn_coin a g) = particle_at g"
  "next_ref (respawn_coin a g) = next_ref g"
  by (simp_all add: respawn_coin_def split_beta)

lemma new_Obstacle_frame2 [simp]:
  "powerup_at (snd (new_Obstacle g)) = powerup_at g"
  "particle_at (snd (new_Obstacle g)) = particle_at g"
  "next_ref (snd (new_Obstacle g)) = Suc (next_ref g)"
  by (simp_all add: new_Obstacle_def split_beta)

lemma new_Coin_frame2 [simp]:
  "powerup_at (snd (new_Coin g)) = powerup_at g"
  "particle_at (snd (new_Coin g)) = particle_at g"
  "next_ref (snd (new_Coin g)) = Suc (next_ref g)"
  by (simp_all add: new_Coin_def split_beta)

lemma new_Obstacles_frame2 [simp]:
  "powerup_at (snd (new_Obstacles n g)) = powerup_at g"
  "particle_at (snd (new_Obstacles n g)) = particle_at g"
  "next_ref (snd (new_Obstacles n g)) = next_ref g + n"
  by (induction n arbitrary: g; simp add: new_Obstacles_Suc_snd del: new_Obstacles.simps(2))+

lemma new_Coins_frame2 [simp]:
  "powerup_at (snd (new_Coins n g)) = powerup_at g"
  "particle_at (snd (new_Coins n g)) = particle_at g"
  "next_ref (snd (new_Coins n g)) = next_ref g + n"
  by (induction n arbitrary: g; simp add: new_Coins_Suc_snd del: new_Coins.simps(2))+

lemma reset_game_objects_frame2 [simp]:
  "powerup_at (reset_game_objects g) = powerup_at g"
  "particle_at (reset_game_objects g) = particle_at g"
  "next_ref g \<le> next_ref (reset_game_objects g)"
  by (simp_all add: reset_game_objects_def split_beta)

lemma store_ok_reset: "store_ok (reset_game_objects g)"
  by (simp add: store_ok_def)

lemma keeps_level_up: "store_ok g \<Longrightarrow> keeps g (level_up g)"
proof -
  have "next_ref (g\<lparr>level := level g + 1\<rparr>) \<le> next_ref (reset_game_objects (g\<lparr>level := level g + 1\<rparr>))"
    by (rule reset_game_objects_frame2)
  then show ?thesis
    by (simp add: keeps_def level_up_def store_ok_reset)
qed

lemma keeps_append_particle:
  assumes "store_ok g"
  shows "keeps g (append_particle x y c g)"
proof -
  have ok: "store_ok (append_particle x y c g)"
    using assms Particle_init_alive [of x y c "random g"]
    by (auto simp: store_ok_def append_particle_store less_Suc_eq)
  show ?thesis
    using ok by (auto simp: keeps_def append_particle_store)
qed

lemma keeps_append_particles: "store_ok g \<Longrightarrow> keeps g (append_particles n x y c g)"
proof (induction n arbitrary: g)
  case 0
  then show ?case by (simp add: keeps_refl)
next
  case (Suc n)
  have a: "keeps g (append_particle x y c g)"
    using Suc.prems by (rule keeps_append_particle)
  then have "store_ok (append_particle x y c g)" by (rule keeps_store_ok)
  then have "keeps (append_particle x y c g) (append_particles n x y c (append_particle x y c g))"
    by (rule Suc.IH)
  with Suc.prems a have "keeps g (append_particles n x y c (append_particle x y c g))"
    by (rule keeps_trans)
  then show ?case by simp
qed

lemma keeps_handle_coin_collection:
  assumes "store_ok g"
  shows "keeps g (handle_coin_collection a g)"
proof -
  let ?c = "coin_at g a"
  let ?g2 = "g\<lparr>coin_at := (coin_at g)(a := ?c\<lparr>coin_collected := True\<rparr>),
               score := score g + coin_value ?c\<rparr>"
  let ?g3 = "append_particles 20 (of_int (coin_x ?c)) (coin_y ?c) (coin_color ?c) ?g2"
  let ?g4 = "respawn_coin a ?g3"
  have eq: "handle_coin_collection a g
            = (if score ?g4 div 10 > level ?g4 - 1 then level_up ?g4 else ?g4)"
    by (simp add: handle_coin_collection_def Let_def)
  have k2: "keeps g ?g2" using assms by (rule keeps_same) simp_all
  then have ok2: "store_ok ?g2" by (rule keeps_store_ok)
  then have k3: "keeps ?g2 ?g3" by (rule keeps_append_particles)
  then have ok3: "store_ok ?g3" by (rule keeps_store_ok)
  then have k4: "keeps ?g3 ?g4" by (rule keeps_same) simp_all
  have k23: "keeps g ?g3" using assms k2 k3 by (rule keeps_trans)
  have k: "keeps g ?g4" using assms k23 k4 by (rule keeps_trans)
  then have ok4: "store_ok ?g4" by (rule keeps_store_ok)
  then have "keeps ?g4 (level_up ?g4)" by (rule keeps_level_up)
  with assms k have kl: "keeps g (level_up ?g4)" by (rule keeps_trans)
  show ?thesis
    unfolding eq using k kl by (simp only: if_split) blast
qed

lemma keeps_update_power_up:
  assumes ok: "store_ok g" and a: "a \<in> set (power_ups g)"
  shows "\<exists>g'. update_power_up a g = Inr g' \<and> keeps g g'
           \<and> (\<forall>b \<in> set (power_ups g). b \<noteq> a \<longrightarrow> b \<in> set (power_ups g'))"
proof -
  let ?g1 = "g\<lparr>powerup_at := (powerup_at g)(a := PowerUp_update (powerup_at g a))\<rparr>"
  have c: "powerup_collected (PowerUp_update pu) = powerup_collected pu" for pu
    by (simp add: PowerUp_update_def)
  show ?thesis
  proof (cases "PowerUp_is_off_screen (PowerUp_update (powerup_at g a))")
    case True
    let ?g' = "?g1\<lparr>power_ups := remove1 a (power_ups g)\<rparr>"
    have eq: "update_power_up a g = Inr ?g'"
      using True a by (simp add: update_power_up_def list_remove_def Let_def)
    have s: "store_ok ?g'"
      using ok by (auto simp: store_ok_def)
    have "keeps g ?g'"
      using ok a True s by (auto simp: keeps_def store_ok_def)
    then show ?thesis using eq by auto
  next
    case False
    have eq: "update_power_up a g = Inr ?g1"
      using False by (simp add: update_power_up_def Let_def)
    have s: "store_ok ?g1"
      using ok False by (auto simp: store_ok_def c)
    have "keeps g ?g1"
      using ok a s by (auto simp: keeps_def store_ok_def)
    then show ?thesis using eq by auto
  qed
qed

lemma keeps_update_particle:
  assumes ok: "store_ok g" and a: "a \<in> set (particles g)"
  shows "\<exists>g'. update_particle a g = Inr g' \<and> keeps g g'
           \<and> (\<forall>b \<in> set (particles g). b \<noteq> a \<longrightarrow> b \<in> set (particles g'))"
proof -
  let ?g1 = "g\<lparr>particle_at := (particle_at g)(a := Particle_update (particle_at g a))\<rparr>"
  show ?thesis
  proof (cases "Particle_is_dead (Particle_update (particle_at g a))")
    case True
    let ?g' = "?g1\<lparr>particles := remove1 a (particles g)\<rparr>"
    have eq: "update_particle a g = Inr ?g'"
      using True a by (simp add: update_particle_def list_remove_def Let_def)
    have s: "store_ok ?g'"
      using ok by (auto simp: store_ok_def)
    have "keeps g ?g'"
      using ok a True s by (auto simp: keeps_def store_ok_def)
    then show ?thesis using eq by auto
  next
    case False
    have eq: "update_particle a g = Inr ?g1"
      using False by (simp add: update_particle_def Let_def)
    have s: "store_ok ?g1"
      using ok False by (auto simp: store_ok_def)
    have "keeps g ?g1"
      using ok a s by (auto simp: keeps_def store_ok_def)
    then show ?thesis using eq by auto
  qed
qed

lemma keeps_spawn_power_up:
  assumes ok: "store_ok g"
  shows "keeps g (spawn_power_up g)"
proof -
  let ?u = "fst (random_random (random g))"
  let ?g1 = "g\<lparr>random := snd (random_random (random g))\<rparr>"
  have k1: "keeps g ?g1" using ok by (rule keeps_same) simp_all
  show ?thesis
  proof (cases "?u < 5 / 100 \<and> length (power_ups g) < 2")
    case False
    then have "spawn_power_up g = ?g1"
      by (auto simp: spawn_power_up_def split_beta Let_def)
    then show ?thesis using k1 by simp
  next
    case True
    let ?pu = "fst (PowerUp_init (random ?g1))"
    let ?g2 = "g\<lparr>random := snd (PowerUp_init (random ?g1)),
                 powerup_at := (powerup_at g)(next_ref g := ?pu),
                 next_ref := Suc (next_ref g),
                 power_ups := power_ups g @ [next_ref g]\<rparr>"
    have eq: "spawn_power_up g = ?g2"
      using True by (simp add: spawn_power_up_def new_PowerUp_def split_beta Let_def)
    have s: "store_ok ?g2"
      using ok PowerUp_init_fresh [of "random ?g1"]
      by (auto simp: store_ok_def less_Suc_eq)
    have "keeps g ?g2"
      using ok s by (auto simp: keeps_def store_ok_def)
    then show ?thesis using eq by simp
  qed
qed

lemma keeps_handle_powerup_collection:
  assumes ok: "store_ok g" and a: "a \<in> set (power_ups g)"
  shows "\<exists>g'. handle_powerup_collection a g = Inr g' \<and> keeps g g'
           \<and> (\<forall>b \<in> set (power_ups g). b \<noteq> a \<longrightarrow> b \<in> set (power_ups g'))"
proof -
  let ?g1 = "g\<lparr>powerup_at := (powerup_at g)(a := (powerup_at g a)\<lparr>powerup_collected := True\<rparr>)\<rparr>"
  obtain g2 where g2: "handle_powerup_collection a g = Inr (g2\<lparr>power_ups := remove1 a (power_ups g)\<rparr>)"
    and f: "powerup_at g2 = powerup_at ?g1" "particle_at g2 = particle_at g"
      "particles g2 = particles g" "next_ref g2 = next_ref g" "level g2 = level g"
    using a
    by (cases "powerup_type (powerup_at g a)")
       (simp_all add: handle_powerup_collection_def list_remove_def Let_def get_ticks_def)
  let ?g' = "g2\<lparr>power_ups := remove1 a (power_ups g)\<rparr>"
  have s: "store_ok ?g'"
    using ok f by (auto simp: store_ok_def)
  have "keeps g ?g'"
    using ok a s f by (auto simp: keeps_def store_ok_def)
  then show ?thesis using g2 by auto
qed

lemma raises_from_save_simps [simp]:
  "raises_from_save (Inr g)"
  "raises_from_save (Inl (e, g)) =
     (state g = GAME_OVER
      \<and> ((e = OSError \<and> \<not> writable (files g))
           \<or> (e = ValueError \<and> max_str_digits < length (digits (nat \<bar>score g\<bar>)))))"
  by (simp_all add: raises_from_save_def)

lemma keeps_game_over:
  assumes "store_ok g"
  shows "keeps g (state_after (game_over g)) \<and> raises_from_save (game_over g)"
proof -
  have "keeps g (state_after (game_over g))"
    using assms
    by (rule keeps_same)
       (simp_all add: game_over_def save_high_score_def Let_def split: sum.splits)
  moreover have "raises_from_save (game_over g)"
    by (auto simp: game_over_def save_high_score_def open_write_def py_str_def Let_def
          split: sum.splits if_splits)
  ultimately show ?thesis by simp
qed

lemma keeps_handle_obstacle_collision:
  assumes ok: "store_ok g"
  shows "keeps g (state_after (handle_obstacle_collision a g))
         \<and> raises_from_save (handle_obstacle_collision a g)"
proof (cases "player_shield (player g)")
  case True
  let ?g2 = "respawn_obstacle a (g\<lparr>player := (player g)\<lparr>player_shield := False\<rparr>\<rparr>)"
  have k2: "keeps g ?g2" using ok by (rule keeps_same) simp_all
  then have "store_ok ?g2" by (rule keeps_store_ok)
  then have "keeps ?g2 (append_particles 30 x y c ?g2)" for x y c
    by (rule keeps_append_particles)
  with ok k2 have "keeps g (append_particles 30 x y c ?g2)" for x y c
    by (rule keeps_trans)
  then show ?thesis
    using True by (simp add: handle_obstacle_collision_def Let_def)
next
  case False
  let ?g2 = "respawn_obstacle a (g\<lparr>lives := lives g - 1\<rparr>)"
  have k2: "keeps g ?g2" using ok by (rule keeps_same) simp_all
  then have ok2: "store_ok ?g2" by (rule keeps_store_ok)
  show ?thesis
  proof (cases "lives g - 1 \<le> 0")
    case True
    have eq: "handle_obstacle_collision a g = game_over ?g2"
      using True \<open>\<not> player_shield (player g)\<close>
      by (simp add: handle_obstacle_collision_def Let_def)
    have "keeps ?g2 (state_after (game_over ?g2))" and r: "raises_from_save (game_over ?g2)"
      using keeps_game_over [OF ok2] by simp_all
    with ok k2 have "keeps g (state_after (game_over ?g2))"
      by (meson keeps_trans)
    then show ?thesis using eq r by simp
  next
    case nf: False
    have "keeps ?g2 (append_particles 30 x y c ?g2)" for x y c
      using ok2 by (rule keeps_append_particles)
    with ok k2 have "keeps g (append_particles 30 x y c ?g2)" for x y c
      by (rule keeps_trans)
    then show ?thesis
      using nf \<open>\<not> player_shield (player g)\<close>
      by (simp add: handle_obstacle_collision_def Let_def)
  qed
qed

lemma keeps_fold:
  assumes step: "\<And>x g. store_ok g \<Longrightarrow> keeps g (f x g)"
  shows "store_ok g \<Longrightarrow> keeps g (fold f xs g)"
proof (induction xs arbitrary: g)
  case Nil
  then show ?case by (simp add: keeps_refl)
next
  case (Cons x xs)
  have a: "keeps g (f x g)" using Cons.prems by (rule step)
  then have "store_ok (f x g)" by (rule keeps_store_ok)
  then have "keeps (f x g) (fold f xs (f x g))" by (rule Cons.IH)
  with Cons.prems a have "keeps g (fold f xs (f x g))" by (rule keeps_trans)
  then show ?case by simp
qed

lemma keeps_for_each_listed:
  assumes step: "\<And>x g. store_ok g \<Longrightarrow> x \<in> set (sel g) \<Longrightarrow>
      \<exists>g'. f x g = Inr g' \<and> keeps g g' \<and> (\<forall>b \<in> set (sel g). b \<noteq> x \<longrightarrow> b \<in> set (sel g'))"
  shows "store_ok g \<Longrightarrow> distinct xs \<Longrightarrow> set xs \<subseteq> set (sel g) \<Longrightarrow>
           \<exists>g'. for_each f xs g = Inr g' \<and> keeps g g'"
proof (induction xs arbitrary: g)
  case Nil
  then show ?case by (simp add: keeps_refl)
next
  case (Cons x xs)
  have "x \<in> set (sel g)" using Cons.prems(3) by simp
  with Cons.prems(1) obtain g1 where g1: "f x g = Inr g1" "keeps g g1"
    and rest: "\<forall>b \<in> set (sel g). b \<noteq> x \<longrightarrow> b \<in> set (sel g1)"
    using step by blast
  have ok1: "store_ok g1" using g1(2) by (rule keeps_store_ok)
  have d: "distinct xs" and nx: "x \<notin> set xs" using Cons.prems(2) by simp_all
  have sub: "set xs \<subseteq> set (sel g1)"
    using Cons.prems(3) rest nx by auto
  obtain g' where g': "for_each f xs g1 = Inr g'" "keeps g1 g'"
    using Cons.IH [OF ok1 d sub] by blast
  have "keeps g g'" using Cons.prems(1) g1(2) g'(2) by (rule keeps_trans)
  then show ?case using g1(1) g'(1) by simp
qed

lemma keeps_for_each_any:
  assumes step: "\<And>x g. store_ok g \<Longrightarrow>
      keeps g (state_after (f x g)) \<and> raises_from_save (f x g)"
  shows "store_ok g \<Longrightarrow>
           keeps g (state_after (for_each f xs g)) \<and> raises_from_save (for_each f xs g)"
proof (induction xs arbitrary: g)
  case Nil
  then show ?case by (simp add: keeps_refl)
next
  case (Cons x xs)
  have s: "keeps g (state_after (f x g))" "raises_from_save (f x g)"
    using step [OF Cons.prems] by simp_all
  show ?case
  proof (cases "f x g")
    case (Inl eg)
    then show ?thesis using s by (cases eg) simp
  next
    case (Inr g1)
    then have k1: "keeps g g1" using s(1) by simp
    then have "store_ok g1" by (rule keeps_store_ok)
    then have ih: "keeps g1 (state_after (for_each f xs g1))"
      "raises_from_save (for_each f xs g1)"
      using Cons.IH by simp_all
    from Cons.prems k1 ih(1) have "keeps g (state_after (for_each f xs g1))"
      by (rule keeps_trans)
    then show ?thesis using Inr ih(2) by simp
  qed
qed

lemma keeps_update_obstacle: "store_ok g \<Longrightarrow> keeps g (update_obstacle a g)"
  by (rule keeps_same) (simp_all add: update_obstacle_def Let_def)

lemma keeps_update_coin: "store_ok g \<Longrightarrow> keeps g (update_coin a g)"
  by (rule keeps_same) (simp_all add: update_coin_def Let_def)

lemma keeps_check_coin: "store_ok g \<Longrightarrow> keeps g (check_coin a g)"
  by (simp add: check_coin_def Let_def keeps_handle_coin_collection keeps_refl)

lemma keeps_check_power_up:
  assumes "store_ok g" and "a \<in> set (power_ups g)"
  shows "\<exists>g'. check_power_up a g = Inr g' \<and> keeps g g'
           \<and> (\<forall>b \<in> set (power_ups g). b \<noteq> a \<longrightarrow> b \<in> set (power_ups g'))"
  using keeps_handle_powerup_collection [OF assms] keeps_refl [OF assms(1)]
  by (auto simp: check_power_up_def Let_def)

lemma keeps_check_obstacle:
  assumes "store_ok g"
  shows "keeps g (state_after (check_obstacle a g)) \<and> raises_from_save (check_obstacle a g)"
  using keeps_handle_obstacle_collision [OF assms, of a] keeps_refl [OF assms]
  by (auto simp: check_obstacle_def Let_def)

lemma keeps_check_collisions:
  assumes ok: "store_ok g"
  shows "keeps g (state_after (check_collisions g)) \<and> raises_from_save (check_collisions g)"
proof -
  let ?g1 = "fold check_coin (coins g) g"
  have k1: "keeps g ?g1" using keeps_check_coin ok by (rule keeps_fold)
  then have ok1: "store_ok ?g1" by (rule keeps_store_ok)
  then have d: "distinct (power_ups ?g1)" by (simp add: store_ok_def)
  obtain g2 where g2: "for_each check_power_up (power_ups ?g1) ?g1 = Inr g2" "keeps ?g1 g2"
    using keeps_for_each_listed [of power_ups check_power_up ?g1 "power_ups ?g1",
        OF keeps_check_power_up ok1 d] by blast
  have k2: "keeps g g2" using ok k1 g2(2) by (rule keeps_trans)
  then have ok2: "store_ok g2" by (rule keeps_store_ok)
  have k3: "keeps g2 (state_after (for_each check_obstacle (obstacles g2) g2))"
    and r3: "raises_from_save (for_each check_obstacle (obstacles g2) g2)"
    using keeps_for_each_any [of check_obstacle g2 "obstacles g2", OF keeps_check_obstacle ok2]
    by simp_all
  have "keeps g (state_after (for_each check_obstacle (obstacles g2) g2))"
    using ok k2 k3 by (rule keeps_trans)
  then show ?thesis
    using r3 g2(1) by (simp add: check_collisions_def Let_def)
qed

lemma keeps_Game_update:
  assumes ok: "store_ok g"
  shows "keeps g (state_after (Game_update ks g)) \<and> raises_from_save (Game_update ks g)"
proof (cases "state g = PLAYING")
  case False
  then show ?thesis using ok by (simp add: Game_update_def keeps_refl)
next
  case True
  let ?t = "fst (get_ticks g)"
  let ?g0 = "snd (get_ticks g)"
  let ?g1 = "?g0\<lparr>player := Player_update ks ?t (player ?g0)\<rparr>"
  let ?g2 = "fold update_obstacle (obstacles ?g1) ?g1"
  let ?g3 = "fold update_coin (coins ?g2) ?g2"
  have k1: "keeps g ?g1" using ok by (rule keeps_same) (simp_all add: get_ticks_def)
  then have ok1: "store_ok ?g1" by (rule keeps_store_ok)
  have k12: "keeps ?g1 ?g2" using keeps_update_obstacle ok1 by (rule keeps_fold)
  with ok k1 have k2: "keeps g ?g2" by (rule keeps_trans)
  then have ok2: "store_ok ?g2" by (rule keeps_store_ok)
  have k23: "keeps ?g2 ?g3" using keeps_update_coin ok2 by (rule keeps_fold)
  with ok k2 have k3: "keeps g ?g3" by (rule keeps_trans)
  then have ok3: "store_ok ?g3" by (rule keeps_store_ok)
  then have d3: "distinct (power_ups ?g3)" by (simp add: store_ok_def)
  obtain g4 where g4: "for_each update_power_up (power_ups ?g3) ?g3 = Inr g4" "keeps ?g3 g4"
    using keeps_for_each_listed [of power_ups update_power_up ?g3 "power_ups ?g3",
        OF keeps_update_power_up ok3 d3] by blast
  have k4: "keeps g g4" using ok k3 g4(2) by (rule keeps_trans)
  then have ok4: "store_ok g4" by (rule keeps_store_ok)
  let ?g5 = "spawn_power_up g4"
  have "keeps g4 ?g5" using ok4 by (rule keeps_spawn_power_up)
  with ok k4 have k5: "keeps g ?g5" by (rule keeps_trans)
  then have ok5: "store_ok ?g5" by (rule keeps_store_ok)
  then have d5: "distinct (particles ?g5)" by (simp add: store_ok_def)
  obtain g6 where g6: "for_each update_particle (particles ?g5) ?g5 = Inr g6" "keeps ?g5 g6"
    using keeps_for_each_listed [of particles update_particle ?g5 "particles ?g5",
        OF keeps_update_particle ok5 d5] by blast
  have k6: "keeps g g6" using ok k5 g6(2) by (rule keeps_trans)
  then have ok6: "store_ok g6" by (rule keeps_store_ok)
  have k7: "keeps g6 (state_after (check_collisions g6))"
    and r7: "raises_from_save (check_collisions g6)"
    using keeps_check_collisions [OF ok6] by simp_all
  have "keeps g (state_after (check_collisions g6))" using ok k6 k7 by (rule keeps_trans)
  moreover have "Game_update ks g = check_collisions g6"
    using True g4(1) g6(1) by (simp add: Game_update_def split_beta Let_def)
  ultimately show ?thesis using r7 by simp
qed

text \<open>
  Claim C5, as amended. The active collections are well-formed when a session starts and
  stay so after every frame. In a frame in which the level does not change, a PowerUp
  that was active before the frame and is not after it is off-screen or collected, and a
  Particle that was active before and is not after has no lifetime left. A coin collection
  that changes the level clears both collections. The frame raises only from the save at
  game-over, the write error of the high-score file or the conversion error of a score of
  more than 4300 digits; in particular no removal fails.
\<close>

theorem removals_in_a_frame:
  assumes "store_ok g"
  shows "store_ok (reset_game g0)
    \<and> store_ok (state_after (Game_update ks g))
    \<and> (level (state_after (Game_update ks g)) = level g \<longrightarrow>
          (\<forall>a \<in> set (power_ups g).
              a \<notin> set (power_ups (state_after (Game_update ks g))) \<longrightarrow>
                PowerUp_is_off_screen (powerup_at (state_after (Game_update ks g)) a)
                \<or> powerup_collected (powerup_at (state_after (Game_update ks g)) a))
          \<and> (\<forall>a \<in> set (particles g).
                a \<notin> set (particles (state_after (Game_update ks g))) \<longrightarrow>
                  Particle_is_dead (particle_at (state_after (Game_update ks g)) a)))
    \<and> (\<forall>e g'. Game_update ks g = Inl (e, g') \<longrightarrow>
           state g' = GAME_OVER
           \<and> ((e = OSError \<and> \<not> writable (files g'))
                \<or> (e = ValueError \<and> max_str_digits < length (digits (nat \<bar>score g'\<bar>)))))
    \<and> (\<forall>c. level (handle_coin_collection c g) \<noteq> level g \<longrightarrow>
           power_ups (handle_coin_collection c g) = []
           \<and> particles (handle_coin_collection c g) = [])"
proof -
  have k: "keeps g (state_after (Game_update ks g))"
    and r: "raises_from_save (Game_update ks g)"
    using keeps_Game_update [OF assms] by simp_all
  have lv: "level (handle_coin_collection c g) \<noteq> level g \<longrightarrow>
           power_ups (handle_coin_collection c g) = []
           \<and> particles (handle_coin_collection c g) = []" for c
    by (simp add: handle_coin_collection_def Let_def level_up_def)
  have e: "\<forall>e g'. Game_update ks g = Inl (e, g') \<longrightarrow>
           state g' = GAME_OVER
           \<and> ((e = OSError \<and> \<not> writable (files g'))
                \<or> (e = ValueError \<and> max_str_digits < length (digits (nat \<bar>score g'\<bar>))))"
    using r by auto
  have s: "store_ok (reset_game g0)"
    by (simp add: reset_game_def store_ok_reset)
  show ?thesis
    using k e lv s unfolding keeps_def by blast
qed

lemma quiet_frame:
  "power_ups (state_after (Game_update \<lparr>K_LEFT = False, K_RIGHT = False\<rparr> quiet_game)) = []
   \<and> particles (state_after (Game_update \<lparr>K_LEFT = False, K_RIGHT = False\<rparr> quiet_game)) = []
   \<and> level (state_after (Game_update \<lparr>K_LEFT = False, K_RIGHT = False\<rparr> quiet_game)) = 1"
  by (simp add: quiet_game_def example_defs Game_update_def get_ticks_def Player_update_def
        update_power_up_def update_particle_def spawn_power_up_def random_random_def
        check_collisions_def check_power_up_def handle_powerup_collection_def
        list_remove_def PowerUp_update_def PowerUp_is_off_screen_def Particle_update_def
        Particle_is_dead_def SCREEN_HEIGHT_def SCREEN_WIDTH_def Let_def frac_half)

lemma quiet_ok: "store_ok quiet_game"
  by (simp add: store_ok_def quiet_game_def example_defs PowerUp_is_off_screen_def
        Particle_is_dead_def SCREEN_HEIGHT_def)

lemma example_ok: "store_ok example_game"
  by (simp add: store_ok_def example_defs PowerUp_is_off_screen_def
        Particle_is_dead_def SCREEN_HEIGHT_def)

lemma example_level_up: "level (handle_coin_collection 3 example_game) = 2"
  by (simp add: handle_coin_collection_def Let_def level_up_def example_defs)

theorem removals_in_a_frame_witness:
  "store_ok quiet_game
   \<and> level (state_after (Game_update \<lparr>K_LEFT = False, K_RIGHT = False\<rparr> quiet_game)) = level quiet_game
   \<and> 5 \<in> set (power_ups quiet_game)
   \<and> 5 \<notin> set (power_ups (state_after (Game_update \<lparr>K_LEFT = False, K_RIGHT = False\<rparr> quiet_game)))
   \<and> (PowerUp_is_off_screen (powerup_at (state_after (Game_update \<lparr>K_LEFT = False, K_RIGHT = False\<rparr> quiet_game)) 5)
        \<or> powerup_collected (powerup_at (state_after (Game_update \<lparr>K_LEFT = False, K_RIGHT = False\<rparr> quiet_game)) 5))
   \<and> 6 \<in> set (particles quiet_game)
   \<and> 6 \<notin> set (particles (state_after (Game_update \<lparr>K_LEFT = False, K_RIGHT = False\<rparr> quiet_game)))
   \<and> Particle_is_dead (particle_at (state_after (Game_update \<lparr>K_LEFT = False, K_RIGHT = False\<rparr> quiet_game)) 6)
   \<and> store_ok (state_after (Game_update \<lparr>K_LEFT = False, K_RIGHT = False\<rparr> quiet_game))
   \<and> store_ok example_game
   \<and> level (handle_coin_collection 3 example_game) \<noteq> level example_game
   \<and> power_ups (handle_coin_collection 3 example_game) = []
   \<and> particles (handle_coin_collection 3 example_game) = []"
proof -
  have q: "power_ups quiet_game = [5]" "particles quiet_game = [6]" "level quiet_game = 1"
    by (simp_all add: quiet_game_def example_defs)
  have e: "level example_game = 1" by (simp add: example_defs)
  show ?thesis
    using removals_in_a_frame [OF quiet_ok, of example_game "\<lparr>K_LEFT = False, K_RIGHT = False\<rparr>"]
      removals_in_a_frame [OF example_ok, of example_game "\<lparr>K_LEFT = False, K_RIGHT = False\<rparr>"]
      quiet_frame quiet_ok example_ok example_level_up q e
    by auto
qed

text \<open>
  Claim C5 as stated fails: the coin collection that takes the score from 9 to 10 raises
  the level and empties both collections, while the power-up is on screen and not
  collected and the particle is alive.
\<close>

theorem level_up_clears_collections:
  "power_ups example_game = [5] \<and> particles example_game = [6]
   \<and> power_ups (handle_coin_collection 3 example_game) = []
   \<and> particles (handle_coin_collection 3 example_game) = []
   \<and> \<not> PowerUp_is_off_screen (powerup_at example_game 5)
   \<and> \<not> powerup_collected (powerup_at example_game 5)
   \<and> \<not> Particle_is_dead (particle_at example_game 6)"
  by (simp add: handle_coin_collection_def Let_def level_up_def example_defs
        PowerUp_is_off_screen_def Particle_is_dead_def SCREEN_HEIGHT_def)

end
